theory Spec2Isabelle
  imports Main "HOL-Library.AList"
begin

section \<open>Data model\<close>

text \<open>
  The embedding follows \<^verbatim>\<open>src/transport.ts\<close> (class \<^verbatim>\<open>Transport\<close>), \<^verbatim>\<open>src/error.ts\<close>,
  the method \<^verbatim>\<open>OSClient.call\<close> of \<^verbatim>\<open>src/client.ts\<close> (lines 95 to 119), and the module
  \<^verbatim>\<open>types\<close>, whose code follows the class \<^verbatim>\<open>OSClient\<close> in the file \<^verbatim>\<open>src/client.ts\<close>
  (lines 526 to 704). Text that the code only compares for equality (ids, codes,
  messages, payloads) is a \<open>string\<close>. The receive buffer is a \<open>string\<close> whose characters
  stand for the code units of the decoded text, restricted to code units below 256.
\<close>

datatype ConnectionState = disconnected | connecting | connected

text \<open>
  The interface \<^verbatim>\<open>Request\<close> of the module \<^verbatim>\<open>types\<close>, \<^verbatim>\<open>{ id, call, args }\<close>; \<open>id'\<close> is the
  field \<^verbatim>\<open>id\<close>. The arguments (\<^verbatim>\<open>unknown[]\<close>) are opaque: each is named by a text.
  Whether \<^verbatim>\<open>JSON.stringify\<close> accepts a request is not read from these texts, it is given
  by \<open>stringifyThrows\<close> below.
\<close>

record Request =
  id' :: string
  call :: string
  args :: "string list"

text \<open>
  The union \<^verbatim>\<open>Response\<close> of the module \<^verbatim>\<open>types\<close> (\<^verbatim>\<open>src/client.ts\<close>, lines 585 to 662),
  one constructor for each interface, named as in the code. Every one extends
  \<^verbatim>\<open>BaseResponse\<close> and so carries the echoed \<^verbatim>\<open>id\<close> first; then come its own fields:
  \<^verbatim>\<open>data?\<close> of \<^verbatim>\<open>ok\<close>, \<^verbatim>\<open>redirect\<close>, \<^verbatim>\<open>event\<close> and \<^verbatim>\<open>progress\<close> (optional), \<^verbatim>\<open>code\<close> and
  \<^verbatim>\<open>message\<close> of \<^verbatim>\<open>error\<close>, \<^verbatim>\<open>data\<close> of \<^verbatim>\<open>item\<close>, \<^verbatim>\<open>bytes\<close> of \<^verbatim>\<open>data\<close>. The field \<^verbatim>\<open>op\<close>
  is the constructor; it is read by the function \<open>op\<close> below.
\<close>

datatype Response =
    OkResponse string "string option"
  | ErrorResponse string string string
  | DoneResponse string
  | RedirectResponse string "string option"
  | ItemResponse string string
  | DataResponse string string
  | EventResponse string "string option"
  | ProgressResponse string "string option"

fun response_id :: "Response \<Rightarrow> string" where
  "response_id (OkResponse i _) = i"
| "response_id (ErrorResponse i _ _) = i"
| "response_id (DoneResponse i) = i"
| "response_id (RedirectResponse i _) = i"
| "response_id (ItemResponse i _) = i"
| "response_id (DataResponse i _) = i"
| "response_id (EventResponse i _) = i"
| "response_id (ProgressResponse i _) = i"

text \<open>
  The type guards of the module \<^verbatim>\<open>types\<close> (\<^verbatim>\<open>src/client.ts\<close>, lines 671 to 704).
  \<^verbatim>\<open>isTerminal\<close> is true of the tags \<^verbatim>\<open>ok\<close>, \<^verbatim>\<open>error\<close>, \<^verbatim>\<open>done\<close> and \<^verbatim>\<open>redirect\<close>; each of
  the others compares the tag with one value.
\<close>

fun isTerminal :: "Response \<Rightarrow> bool" where
  "isTerminal (OkResponse _ _) = True"
| "isTerminal (ErrorResponse _ _ _) = True"
| "isTerminal (DoneResponse _) = True"
| "isTerminal (RedirectResponse _ _) = True"
| "isTerminal _ = False"




fun isData :: "Response \<Rightarrow> bool" where
  "isData (DataResponse _ _) = True"
| "isData _ = False"

text \<open>
  The three error classes of \<^verbatim>\<open>src/error.ts\<close>: \<^verbatim>\<open>ConnectionError(code, message)\<close>,
  \<^verbatim>\<open>TimeoutError(message)\<close> and \<^verbatim>\<open>SyscallError(code, message, syscall?)\<close>.
  \<open>OtherError\<close> is an error object of the runtime that the code passes on unchanged
  (what \<^verbatim>\<open>socket.write\<close> or \<^verbatim>\<open>JSON.stringify\<close> throws). \<open>isTimeoutError\<close> is the test
  \<^verbatim>\<open>instanceof TimeoutError\<close>.
\<close>

datatype Error =
    ConnectionError string string
  | TimeoutError string
  | SyscallError string string "string option"
  | OtherError string

fun isSyscallError :: "Error \<Rightarrow> bool" where
  "isSyscallError (SyscallError _ _ _) = True"
| "isSyscallError _ = False"

fun isTimeoutError :: "Error \<Rightarrow> bool" where
  "isTimeoutError (TimeoutError _) = True"
| "isTimeoutError _ = False"


text \<open>
  A promise is pending, or settled once and for all: \<^verbatim>\<open>resolve\<close> and \<^verbatim>\<open>reject\<close> on a
  settled promise do nothing.
\<close>

datatype 'a Promise = Pending | Resolved 'a | Rejected Error


text \<open>
  The closures stored in a \<^verbatim>\<open>PendingRequest\<close>, by what they capture. \<^verbatim>\<open>send\<close> stores
  the \<^verbatim>\<open>resolve\<close> and \<^verbatim>\<open>reject\<close> of its promise; \<^verbatim>\<open>stream\<close> stores \<^verbatim>\<open>() => {}\<close> and its
  \<^verbatim>\<open>errorHandler\<close>. Promises, timers and running generators are named by handles.
\<close>

datatype ResolveFn = ResolvePromise nat | ResolveNoop

datatype RejectFn = RejectPromise nat | StreamErrorHandler nat

record PendingRequest =
  resolve :: ResolveFn
  reject :: RejectFn
  responses :: "Response list"
  timer :: "nat option"

text \<open>
  The value of the property \<^verbatim>\<open>this.onResponse\<close>: the method of the class (\<open>Proto\<close>), or
  the closure that \<^verbatim>\<open>stream\<close> assigns, which captures \<^verbatim>\<open>request.id\<close>, the locals of that
  generator and \<^verbatim>\<open>originalOnResponse\<close>.
\<close>

datatype Handler = Proto | Override string nat Handler

text \<open>The \<^verbatim>\<open>IteratorResult\<close> that \<^verbatim>\<open>handler\<close> and \<^verbatim>\<open>errorHandler\<close> pass to \<^verbatim>\<open>resolver\<close>.\<close>

datatype IterResult = IterValue Response | IterDone

text \<open>
  Where the body of the async generator \<^verbatim>\<open>stream\<close> is suspended: before its first pull,
  at the \<^verbatim>\<open>await\<close> with \<^verbatim>\<open>resolver\<close> set, at the \<^verbatim>\<open>await\<close> after \<^verbatim>\<open>resolver\<close> was called
  (the continuation is a microtask that has not run yet), at one of the two \<^verbatim>\<open>yield\<close>s
  (they continue the same way), or finished.
\<close>

datatype GenState =
    SuspendedStart
  | AwaitingResolver
  | ResolverCalled IterResult
  | SuspendedYield Response
  | Completed

text \<open>What the consumer of the generator has received, one entry per settled pull.\<close>

datatype StreamOut = Yielded Response | Returned | Thrown Error

record StreamLocals =
  request :: Request
  queue :: "Response list"
  resolver :: bool
  error :: "Error option"
  done' :: bool
  originalOnResponse :: Handler
  gen :: GenState
  delivered :: "StreamOut list"

text \<open>
  One call of \<^verbatim>\<open>connectWithTimeout\<close>: its arguments, whether its \<^verbatim>\<open>setTimeout\<close> is still
  armed, and the promise that \<^verbatim>\<open>connect\<close> awaits. The continuation of that \<^verbatim>\<open>await\<close>
  (\<^verbatim>\<open>this.state = 'connected'\<close>, or the \<^verbatim>\<open>catch\<close> block) is a microtask that runs when the
  callback that settled the promise returns, before any other callback: the model runs
  it together with the settling.
\<close>

record ConnectAttempt =
  socketPath :: string
  timeout :: nat
  timerArmed :: bool
  outcome :: "unit Promise"

text \<open>
  The fields of the class (\<open>state\<close>, \<open>socket\<close>, \<open>pending\<close>, \<open>nextId\<close>, and \<open>onResponse\<close>,
  which \<^verbatim>\<open>stream\<close> reassigns), then the objects of the runtime that the closures of the
  class capture, and what the socket layer has been asked to do.

  \<open>pending\<close> is the \<^verbatim>\<open>Map\<close>: an association list in insertion order, \<^verbatim>\<open>set\<close> is
  \<open>AList.update\<close> (an existing key keeps its place), \<^verbatim>\<open>delete\<close> is \<open>AList.delete\<close>,
  \<^verbatim>\<open>get\<close> is \<open>map_of\<close>. \<open>timers\<close> holds the armed timers of \<^verbatim>\<open>send\<close>, each with the
  \<^verbatim>\<open>request.id\<close>, the promise and the \<^verbatim>\<open>timeout\<close> its callback captures.
  \<open>buffers k\<close> is \<^verbatim>\<open>socket.data.buffer\<close> of the socket \<open>k\<close>. \<open>writeThrows k\<close> is the
  message of the error that \<^verbatim>\<open>write\<close> on socket \<open>k\<close> throws, if it throws.
  \<open>stringifyThrows r\<close> is the message of the error that \<^verbatim>\<open>JSON.stringify(r)\<close> throws, if
  it throws (a \<^verbatim>\<open>TypeError\<close>, when an argument holds a \<^verbatim>\<open>BigInt\<close> or a cycle); no
  operation changes it. \<open>written\<close> lists the requests written, \<open>ended\<close> the sockets on
  which \<^verbatim>\<open>end()\<close> was called.
\<close>

record Transport =
  state :: ConnectionState
  socket :: "nat option"
  pending :: "(string \<times> PendingRequest) list"
  nextId :: nat
  onResponse :: Handler
  promises :: "nat \<Rightarrow> Response list Promise"
  nextPromise :: nat
  timers :: "nat \<Rightarrow> (string \<times> nat \<times> nat) option"
  nextTimer :: nat
  streams :: "nat \<Rightarrow> StreamLocals"
  nextStream :: nat
  microtasks :: "nat list"
  attempts :: "nat \<Rightarrow> ConnectAttempt"
  nextAttempt :: nat
  buffers :: "nat \<Rightarrow> string"
  writeThrows :: "nat \<Rightarrow> string option"
  stringifyThrows :: "Request \<Rightarrow> string option"
  written :: "(nat \<times> Request) list"
  ended :: "nat list"

record ConnectOptions =
  opt_socketPath :: "string option"
  opt_timeout :: "nat option"

definition DEFAULT_SOCKET_PATH :: string where
  "DEFAULT_SOCKET_PATH = ''/tmp/monk.sock''"

definition DEFAULT_TIMEOUT :: nat where
  "DEFAULT_TIMEOUT = 5000"

text \<open>
  The state of \<^verbatim>\<open>new Transport()\<close> in a runtime where no write throws and every request
  can be serialised.
\<close>

definition newTransport :: Transport where
  "newTransport =
     \<lparr> state = disconnected, socket = None, pending = [], nextId = 1, onResponse = Proto,
       promises = (\<lambda>_. Pending), nextPromise = 0,
       timers = (\<lambda>_. None), nextTimer = 0,
       streams = (\<lambda>_. \<lparr> request = \<lparr> id' = [], call = [], args = [] \<rparr>, queue = [],
                         resolver = False, error = None, done' = False,
                         originalOnResponse = Proto, gen = Completed, delivered = [] \<rparr>),
       nextStream = 0, microtasks = [],
       attempts = (\<lambda>_. \<lparr> socketPath = [], timeout = 0, timerArmed = False,
                          outcome = Pending \<rparr>),
       nextAttempt = 0,
       buffers = (\<lambda>_. []), writeThrows = (\<lambda>_. None), stringifyThrows = (\<lambda>_. None),
       written = [], ended = [] \<rparr>"

section \<open>Numbers as text\<close>

text \<open>
  \<^verbatim>\<open>String(n)\<close> and \<^verbatim>\<open>`${n}`\<close> for an integral number \<open>n\<close> below \<open>10^21\<close>: its decimal
  digits. From \<open>10^21\<close> on the runtime writes an exponent (\<^verbatim>\<open>String(1e21)\<close> is
  \<^verbatim>\<open>"1e+21"\<close>), which \<open>Number_toString\<close> does not render: for such a number the text
  in the model and the text of the runtime differ in the digits of the number. The
  counter \<open>nextId\<close> stays below that bound, since it never exceeds \<open>2^53\<close>; a timeout
  in milliseconds is below it unless it exceeds some \<open>3 * 10^10\<close> years.
\<close>

definition digit :: "nat \<Rightarrow> char" where
  "digit d = ''0123456789'' ! d"

function Number_toString :: "nat \<Rightarrow> string" where
  "Number_toString n =
     (if n < 10 then [digit n] else Number_toString (n div 10) @ [digit (n mod 10)])"
  by pat_completeness auto
termination
  by (relation "measure id") auto

declare Number_toString.simps [simp del]

text \<open>
  \<^verbatim>\<open>this.nextId++\<close> on a number: the counter is an IEEE double, every integer up to
  \<open>2^53\<close> is exact, and \<open>2^53 + 1\<close> rounds back to \<open>2^53\<close> (ties to even).
\<close>

definition MAX_EXACT :: nat where
  "MAX_EXACT = 2 ^ 53"

definition increment :: "nat \<Rightarrow> nat" where
  "increment n = (if n < MAX_EXACT then n + 1 else n)"

definition generateId :: "Transport \<Rightarrow> string \<times> Transport" where
  "generateId s = (Number_toString (nextId s), s\<lparr> nextId := increment (nextId s) \<rparr>)"

section \<open>Promises, timers and connection attempts\<close>

definition settle :: "nat \<Rightarrow> Response list Promise \<Rightarrow> Transport \<Rightarrow> Transport" where
  "settle p v s = (if promises s p = Pending then s\<lparr> promises := (promises s)(p := v) \<rparr> else s)"

definition clearTimeout :: "nat \<Rightarrow> Transport \<Rightarrow> Transport" where
  "clearTimeout t s = s\<lparr> timers := (timers s)(t := None) \<rparr>"

definition updStream :: "nat \<Rightarrow> (StreamLocals \<Rightarrow> StreamLocals) \<Rightarrow> Transport \<Rightarrow> Transport" where
  "updStream k f s = s\<lparr> streams := (streams s)(k := f (streams s k)) \<rparr>"

definition updAttempt :: "nat \<Rightarrow> (ConnectAttempt \<Rightarrow> ConnectAttempt) \<Rightarrow> Transport \<Rightarrow> Transport" where
  "updAttempt a f s = s\<lparr> attempts := (attempts s)(a := f (attempts s a)) \<rparr>"

text \<open>
  \<^verbatim>\<open>connect(options)\<close> up to its \<^verbatim>\<open>await\<close>: the state check, then the attempt \<open>a\<close> with
  its timer armed. \<open>Inl\<close> is the error thrown, \<open>Inr a\<close> the attempt awaited.
\<close>

definition connect :: "ConnectOptions \<Rightarrow> Transport \<Rightarrow> (Error + nat) \<times> Transport" where
  "connect options s =
     (if state s \<noteq> disconnected
      then (Inl (ConnectionError ''EISCONN'' ''Already connected or connecting''), s)
      else
        let path = (case opt_socketPath options of None \<Rightarrow> DEFAULT_SOCKET_PATH | Some p \<Rightarrow> p);
            tmo = (case opt_timeout options of None \<Rightarrow> DEFAULT_TIMEOUT | Some t \<Rightarrow> t);
            a = nextAttempt s
        in (Inr a,
            s\<lparr> state := connecting,
               attempts := (attempts s)(a := \<lparr> socketPath = path, timeout = tmo,
                                               timerArmed = True, outcome = Pending \<rparr>),
               nextAttempt := a + 1 \<rparr>))"

text \<open>
  \<^verbatim>\<open>resolve()\<close> and \<^verbatim>\<open>reject(err)\<close> of the promise of attempt \<open>a\<close>, each with the
  continuation of \<^verbatim>\<open>connect\<close> that a first settling starts: \<^verbatim>\<open>this.state = 'connected'\<close>,
  or the \<^verbatim>\<open>catch\<close> block with \<^verbatim>\<open>this.state = 'disconnected'\<close>.
\<close>

definition resolveAttempt :: "nat \<Rightarrow> Transport \<Rightarrow> Transport" where
  "resolveAttempt a s =
     (if outcome (attempts s a) = Pending
      then (updAttempt a (\<lambda>c. c\<lparr> outcome := Resolved () \<rparr>) s)\<lparr> state := connected \<rparr>
      else s)"

definition rejectAttempt :: "nat \<Rightarrow> Error \<Rightarrow> Transport \<Rightarrow> Transport" where
  "rejectAttempt a e s =
     (if outcome (attempts s a) = Pending
      then (updAttempt a (\<lambda>c. c\<lparr> outcome := Rejected e \<rparr>) s)\<lparr> state := disconnected \<rparr>
      else s)"

text \<open>The callback of the \<^verbatim>\<open>setTimeout\<close> in \<^verbatim>\<open>connectWithTimeout\<close>; it runs if still armed.\<close>

definition connectTimerFires :: "nat \<Rightarrow> Transport \<Rightarrow> Transport" where
  "connectTimerFires a s =
     (if timerArmed (attempts s a)
      then rejectAttempt a
             (TimeoutError (''Connection to '' @ socketPath (attempts s a) @ '' timed out after ''
                            @ Number_toString (timeout (attempts s a)) @ ''ms''))
             (updAttempt a (\<lambda>c. c\<lparr> timerArmed := False \<rparr>) s)
      else s)"

text \<open>
  The socket callback \<^verbatim>\<open>open\<close> of attempt \<open>a\<close>, called with the new socket \<open>sock\<close>, whose
  \<^verbatim>\<open>data\<close> is \<^verbatim>\<open>{ buffer: '' }\<close>.
\<close>

definition socket_open :: "nat \<Rightarrow> nat \<Rightarrow> Transport \<Rightarrow> Transport" where
  "socket_open a sock s =
     resolveAttempt a
       ((updAttempt a (\<lambda>c. c\<lparr> timerArmed := False \<rparr>) s)
          \<lparr> socket := Some sock, buffers := (buffers s)(sock := []) \<rparr>)"

text \<open>
  The socket callbacks \<^verbatim>\<open>error\<close> and \<^verbatim>\<open>connectError\<close> and the \<^verbatim>\<open>catch\<close> of
  \<^verbatim>\<open>Bun.connect\<close>, which have the same body; \<open>msg\<close> is \<^verbatim>\<open>error.message\<close>.
\<close>

definition socket_error :: "nat \<Rightarrow> string \<Rightarrow> Transport \<Rightarrow> Transport" where
  "socket_error a msg s =
     rejectAttempt a (ConnectionError ''ECONNREFUSED'' msg)
       (updAttempt a (\<lambda>c. c\<lparr> timerArmed := False \<rparr>) s)"

section \<open>Generators of \<^verbatim>\<open>stream\<close>\<close>

text \<open>\<^verbatim>\<open>errorHandler(err)\<close> of the generator \<open>k\<close>.\<close>

definition errorHandler :: "nat \<Rightarrow> Error \<Rightarrow> Transport \<Rightarrow> Transport" where
  "errorHandler k e s =
     (let s1 = updStream k (\<lambda>st. st\<lparr> error := Some e \<rparr>) s
      in if resolver (streams s1 k)
         then (updStream k (\<lambda>st. st\<lparr> gen := ResolverCalled IterDone, resolver := False \<rparr>) s1)
                \<lparr> microtasks := microtasks s1 @ [k] \<rparr>
         else s1)"

text \<open>\<^verbatim>\<open>handler(response)\<close> of the generator \<open>k\<close>.\<close>

definition handler :: "nat \<Rightarrow> Response \<Rightarrow> Transport \<Rightarrow> Transport" where
  "handler k response s =
     (let s1 = (if isTerminal response then updStream k (\<lambda>st. st\<lparr> done' := True \<rparr>) s else s)
      in if resolver (streams s1 k)
         then (updStream k (\<lambda>st. st\<lparr> gen := ResolverCalled (IterValue response),
                                       resolver := False \<rparr>) s1)
                \<lparr> microtasks := microtasks s1 @ [k] \<rparr>
         else updStream k (\<lambda>st. st\<lparr> queue := queue st @ [response] \<rparr>) s1)"

section \<open>Teardown\<close>

text \<open>\<^verbatim>\<open>pending.reject(err)\<close>.\<close>

definition rejectWaiter :: "PendingRequest \<Rightarrow> Error \<Rightarrow> Transport \<Rightarrow> Transport" where
  "rejectWaiter w e s =
     (case reject w of
        RejectPromise p \<Rightarrow> settle p (Rejected e) s
      | StreamErrorHandler k \<Rightarrow> errorHandler k e s)"

text \<open>
  The loop \<^verbatim>\<open>for (const [id, pending] of this.pending)\<close> of \<^verbatim>\<open>close\<close> and \<^verbatim>\<open>onClose\<close>, over
  the entries in insertion order; each turn deletes the entry it visits.
\<close>

fun rejectAll :: "(string \<times> PendingRequest) list \<Rightarrow> Transport \<Rightarrow> Transport" where
  "rejectAll [] s = s"
| "rejectAll ((i, w) # es) s =
     rejectAll es
       (let s1 = (case timer w of Some t \<Rightarrow> clearTimeout t s | None \<Rightarrow> s);
            s2 = rejectWaiter w (ConnectionError ''ECONNRESET'' ''Connection closed'') s1
        in s2\<lparr> pending := AList.delete i (pending s2) \<rparr>)"

definition close :: "Transport \<Rightarrow> Transport" where
  "close s =
     (let s1 = (case socket s of
                  Some k \<Rightarrow> s\<lparr> ended := ended s @ [k], socket := None \<rparr>
                | None \<Rightarrow> s);
          s2 = s1\<lparr> state := disconnected \<rparr>
      in rejectAll (pending s2) s2)"

definition onClose :: "Transport \<Rightarrow> Transport" where
  "onClose s =
     (let s1 = s\<lparr> socket := None, state := disconnected \<rparr>
      in rejectAll (pending s1) s1)"

section \<open>\<^verbatim>\<open>send\<close> and its timer\<close>

definition NOT_CONNECTED :: Error where
  "NOT_CONNECTED = ConnectionError ''ENOTCONN'' ''Not connected''"

text \<open>
  \<^verbatim>\<open>send(request, timeout = 30000)\<close>. \<open>Inl\<close> is the error thrown by the state check;
  \<open>Inr p\<close> is the promise returned. Past the check \<^verbatim>\<open>this.socket\<close> is set. The executor
  arms the timer and registers the waiter, and then calls \<^verbatim>\<open>JSON.stringify(request)\<close>
  outside the \<^verbatim>\<open>try\<close>: an error thrown there leaves the executor, so the promise is
  rejected with that error while the waiter stays in the table and the timer stays
  armed. The write is inside the \<^verbatim>\<open>try\<close>: when it throws, the \<^verbatim>\<open>catch\<close> deletes the
  waiter, clears the timer and rejects with \<^verbatim>\<open>EIO\<close>.
\<close>

definition send :: "Request \<Rightarrow> nat option \<Rightarrow> Transport \<Rightarrow> (Error + nat) \<times> Transport" where
  "send req timeout_opt s =
     (if socket s = None \<or> state s \<noteq> connected then (Inl NOT_CONNECTED, s)
      else
        let k = the (socket s);
            tmo = (case timeout_opt of None \<Rightarrow> 30000 | Some t \<Rightarrow> t);
            p = nextPromise s;
            t = nextTimer s;
            w = \<lparr> resolve = ResolvePromise p, reject = RejectPromise p,
                  responses = [], timer = Some t \<rparr>;
            s1 = s\<lparr> promises := (promises s)(p := Pending), nextPromise := p + 1,
                    timers := (timers s)(t := Some (id' req, p, tmo)),
                    nextTimer := t + 1,
                    pending := AList.update (id' req) w (pending s) \<rparr>
        in (case stringifyThrows s1 req of
              Some err \<Rightarrow> (Inr p, settle p (Rejected (OtherError err)) s1)
            | None \<Rightarrow>
                (case writeThrows s1 k of
                   None \<Rightarrow> (Inr p, s1\<lparr> written := written s1 @ [(k, req)] \<rparr>)
                 | Some msg \<Rightarrow>
                     (Inr p,
                      settle p (Rejected (ConnectionError ''EIO'' msg))
                        (clearTimeout t
                           (s1\<lparr> pending := AList.delete (id' req) (pending s1) \<rparr>))))))"

text \<open>The callback of the \<^verbatim>\<open>setTimeout\<close> in \<^verbatim>\<open>send\<close>; it runs if the timer \<open>t\<close> is armed.\<close>

definition timerFires :: "nat \<Rightarrow> Transport \<Rightarrow> Transport" where
  "timerFires t s =
     (case timers s t of
        None \<Rightarrow> s
      | Some (i, p, tmo) \<Rightarrow>
          settle p
            (Rejected (TimeoutError (''Request '' @ i @ '' timed out after ''
                                     @ Number_toString tmo @ ''ms'')))
            ((clearTimeout t s)\<lparr> pending := AList.delete i (pending s) \<rparr>))"

section \<open>Dispatch\<close>

text \<open>The method \<^verbatim>\<open>onResponse(response)\<close> of the class.\<close>

definition onResponse_method :: "Response \<Rightarrow> Transport \<Rightarrow> Transport" where
  "onResponse_method response s =
     (case map_of (pending s) (response_id response) of
        None \<Rightarrow> s
      | Some w \<Rightarrow>
          let w' = w\<lparr> responses := responses w @ [response] \<rparr>;
              s1 = s\<lparr> pending := AList.update (response_id response) w' (pending s) \<rparr>
          in if isTerminal response
             then
               let s2 = (case timer w' of Some t \<Rightarrow> clearTimeout t s1 | None \<Rightarrow> s1);
                   s3 = s2\<lparr> pending := AList.delete (response_id response) (pending s2) \<rparr>
               in (case resolve w' of
                     ResolvePromise p \<Rightarrow> settle p (Resolved (responses w')) s3
                   | ResolveNoop \<Rightarrow> s3)
             else s1)"

text \<open>
  Calling a value of \<^verbatim>\<open>this.onResponse\<close>: the method, or the closure of a generator, which
  hands the responses of its own id to \<^verbatim>\<open>handler\<close> and the others to
  \<^verbatim>\<open>originalOnResponse\<close>.
\<close>

fun dispatch :: "Handler \<Rightarrow> Response \<Rightarrow> Transport \<Rightarrow> Transport" where
  "dispatch Proto response s = onResponse_method response s"
| "dispatch (Override i k original) response s =
     (if response_id response = i then handler k response s
      else dispatch original response s)"

text \<open>The call \<^verbatim>\<open>this.onResponse(response)\<close> in \<^verbatim>\<open>onData\<close>.\<close>

definition this_onResponse :: "Response \<Rightarrow> Transport \<Rightarrow> Transport" where
  "this_onResponse response s = dispatch (onResponse s) response s"

section \<open>The body of \<^verbatim>\<open>stream\<close>\<close>

text \<open>
  Calling \<^verbatim>\<open>stream(request)\<close> creates the generator object and runs nothing of the body.
\<close>

definition stream :: "Request \<Rightarrow> Transport \<Rightarrow> nat \<times> Transport" where
  "stream req s =
     (let k = nextStream s
      in (k, s\<lparr> streams := (streams s)(k := \<lparr> request = req, queue = [], resolver = False,
                                              error = None, done' = False,
                                              originalOnResponse = Proto,
                                              gen = SuspendedStart, delivered = [] \<rparr>),
                nextStream := k + 1 \<rparr>))"

definition deliver :: "nat \<Rightarrow> StreamOut \<Rightarrow> Transport \<Rightarrow> Transport" where
  "deliver k out s = updStream k (\<lambda>st. st\<lparr> delivered := delivered st @ [out] \<rparr>) s"

text \<open>The \<^verbatim>\<open>finally\<close> block.\<close>

definition finally' :: "nat \<Rightarrow> Transport \<Rightarrow> Transport" where
  "finally' k s =
     s\<lparr> onResponse := originalOnResponse (streams s k),
        pending := AList.delete (id' (request (streams s k))) (pending s) \<rparr>"

text \<open>Leaving the \<^verbatim>\<open>try\<close> block by \<^verbatim>\<open>throw\<close> or at its end: \<^verbatim>\<open>finally\<close>, then the generator is finished.\<close>

definition finish :: "nat \<Rightarrow> StreamOut \<Rightarrow> Transport \<Rightarrow> Transport" where
  "finish k out s = deliver k out (updStream k (\<lambda>st. st\<lparr> gen := Completed \<rparr>) (finally' k s))"

text \<open>After the \<^verbatim>\<open>while\<close> loop: \<^verbatim>\<open>if (error) throw error\<close>.\<close>

definition afterLoop :: "nat \<Rightarrow> Transport \<Rightarrow> Transport" where
  "afterLoop k s =
     (case error (streams s k) of
        Some e \<Rightarrow> finish k (Thrown e) s
      | None \<Rightarrow> finish k Returned s)"

text \<open>
  From the head of the \<^verbatim>\<open>while\<close> loop to the next suspension: every turn of the loop
  ends in a \<^verbatim>\<open>yield\<close> or an \<^verbatim>\<open>await\<close>.
\<close>

definition loop :: "nat \<Rightarrow> Transport \<Rightarrow> Transport" where
  "loop k s =
     (if \<not> done' (streams s k) \<and> error (streams s k) = None
      then (case queue (streams s k) of
              response # rest \<Rightarrow>
                deliver k (Yielded response)
                  (updStream k (\<lambda>st. st\<lparr> queue := rest, gen := SuspendedYield response \<rparr>) s)
            | [] \<Rightarrow> updStream k (\<lambda>st. st\<lparr> resolver := True, gen := AwaitingResolver \<rparr>) s)
      else afterLoop k s)"

text \<open>
  The body from its start: the state check, the registration, then inside the \<^verbatim>\<open>try\<close>
  \<^verbatim>\<open>JSON.stringify\<close>, the write and the loop. An error thrown by either of the first two
  runs the \<^verbatim>\<open>finally\<close> block and is thrown to the consumer.
\<close>

definition start :: "nat \<Rightarrow> Transport \<Rightarrow> Transport" where
  "start k s =
     (if socket s = None \<or> state s \<noteq> connected
      then deliver k (Thrown NOT_CONNECTED) (updStream k (\<lambda>st. st\<lparr> gen := Completed \<rparr>) s)
      else
        let sock = the (socket s);
            req = request (streams s k);
            s1 = updStream k (\<lambda>st. st\<lparr> queue := [], resolver := False, error := None,
                                       done' := False \<rparr>) s;
            s2 = s1\<lparr> pending := AList.update (id' req)
                                   \<lparr> resolve = ResolveNoop, reject = StreamErrorHandler k,
                                     responses = [], timer = None \<rparr> (pending s1) \<rparr>;
            s3 = (updStream k (\<lambda>st. st\<lparr> originalOnResponse := onResponse s2 \<rparr>) s2)
                   \<lparr> onResponse := Override (id' req) k (onResponse s2) \<rparr>
        in (case stringifyThrows s3 req of
              Some err \<Rightarrow> finish k (Thrown (OtherError err)) s3
            | None \<Rightarrow>
                (case writeThrows s3 sock of
                   Some msg \<Rightarrow> finish k (Thrown (OtherError msg)) s3
                 | None \<Rightarrow> loop k (s3\<lparr> written := written s3 @ [(sock, req)] \<rparr>))))"

text \<open>
  The consumer calls \<^verbatim>\<open>next()\<close> on the generator \<open>k\<close>: the body runs from where it is
  suspended. After a \<^verbatim>\<open>yield\<close> both branches go on with \<^verbatim>\<open>if (isTerminal(..)) break\<close>.
  A \<^verbatim>\<open>next()\<close> while an earlier one is unsettled is queued by the runtime and served
  when the body next yields or ends. The consumers here (\<^verbatim>\<open>for await\<close>, \<^verbatim>\<open>yield*\<close>) never
  do that: the model covers consumers with at most one pull outstanding, has no queue
  of pulls, and leaves the state as it is on such a call.
\<close>

definition generator_next :: "nat \<Rightarrow> Transport \<Rightarrow> Transport" where
  "generator_next k s =
     (case gen (streams s k) of
        SuspendedStart \<Rightarrow> start k s
      | SuspendedYield response \<Rightarrow> if isTerminal response then afterLoop k s else loop k s
      | Completed \<Rightarrow> deliver k Returned s
      | AwaitingResolver \<Rightarrow> s
      | ResolverCalled _ \<Rightarrow> s)"

text \<open>
  The continuation of \<^verbatim>\<open>await new Promise(..)\<close> once \<^verbatim>\<open>resolver\<close> was called:
  \<^verbatim>\<open>if (result.done) break\<close>, else \<^verbatim>\<open>yield result.value\<close>.
\<close>

definition resume :: "nat \<Rightarrow> Transport \<Rightarrow> Transport" where
  "resume k s =
     (case gen (streams s k) of
        ResolverCalled IterDone \<Rightarrow> afterLoop k s
      | ResolverCalled (IterValue v) \<Rightarrow>
          deliver k (Yielded v) (updStream k (\<lambda>st. st\<lparr> gen := SuspendedYield v \<rparr>) s)
      | _ \<Rightarrow> s)"

text \<open>
  The microtasks run in the order they were queued, when the callback or call that
  queued them has returned.
\<close>

fun runAll :: "nat list \<Rightarrow> Transport \<Rightarrow> Transport" where
  "runAll [] s = s"
| "runAll (k # ks) s = runAll ks (resume k s)"

definition runMicrotasks :: "Transport \<Rightarrow> Transport" where
  "runMicrotasks s = runAll (microtasks s) (s\<lparr> microtasks := [] \<rparr>)"

section \<open>\<^verbatim>\<open>onData\<close>\<close>

text \<open>\<^verbatim>\<open>indexOf\<close>: \<open>None\<close> is the result \<^verbatim>\<open>-1\<close>.\<close>

fun indexOf :: "string \<Rightarrow> char \<Rightarrow> nat option" where
  "indexOf [] c = None"
| "indexOf (x # xs) c = (if x = c then Some 0 else map_option Suc (indexOf xs c))"

definition newline :: char where
  "newline = CHR 0x0A"

text \<open>
  The white space and line terminators that \<^verbatim>\<open>trim\<close> strips, among the code units below
  256: tab, line feed, vertical tab, form feed, carriage return, space, no-break space.
\<close>

definition isWhiteSpace :: "char \<Rightarrow> bool" where
  "isWhiteSpace c =
     (c = CHR 0x09 \<or> c = CHR 0x0A \<or> c = CHR 0x0B \<or> c = CHR 0x0C \<or> c = CHR 0x0D
      \<or> c = CHR 0x20 \<or> c = CHR 0xA0)"

definition trim :: "string \<Rightarrow> string" where
  "trim l = rev (dropWhile isWhiteSpace (rev (dropWhile isWhiteSpace l)))"

text \<open>
  \<^verbatim>\<open>JSON.parse(line) as Response\<close> belongs to the runtime and is a parameter: \<open>parse line\<close>
  is \<open>None\<close> when \<^verbatim>\<open>JSON.parse\<close> throws, and also when the value parsed is no message
  (\<^verbatim>\<open>null\<close>, whose \<^verbatim>\<open>.id\<close> throws inside the same \<^verbatim>\<open>try\<close>; a value without a string
  \<^verbatim>\<open>id\<close>, which no waiter and no generator matches).
\<close>

type_synonym parser = "string \<Rightarrow> Response option"

text \<open>
  The \<^verbatim>\<open>while\<close> loop of \<^verbatim>\<open>onData\<close> on the value of \<^verbatim>\<open>socket.data.buffer\<close>, which nothing
  else reads or writes while the loop runs.
\<close>

function onData_loop :: "parser \<Rightarrow> string \<Rightarrow> Transport \<Rightarrow> string \<times> Transport" where
  "onData_loop parse buffer s =
     (case indexOf buffer newline of
        None \<Rightarrow> (buffer, s)
      | Some newlineIdx \<Rightarrow>
          let line = take newlineIdx buffer;
              buffer' = drop (newlineIdx + 1) buffer
          in onData_loop parse buffer'
               (if trim line \<noteq> []
                then (case parse line of
                        Some response \<Rightarrow> this_onResponse response s
                      | None \<Rightarrow> s)
                else s))"
  by pat_completeness auto
termination
proof (relation "measure (\<lambda>(parse, buffer, s). length buffer)", goal_cases)
  case 1
  show ?case by simp
next
  case (2 parse buffer s newlineIdx)
  then show ?case by (cases buffer) auto
qed

declare onData_loop.simps [simp del]

definition onData :: "parser \<Rightarrow> nat \<Rightarrow> string \<Rightarrow> Transport \<Rightarrow> Transport" where
  "onData parse sock data s =
     (let r = onData_loop parse (buffers s sock @ data) s
      in (snd r)\<lparr> buffers := (buffers (snd r))(sock := fst r) \<rparr>)"

section \<open>Callbacks and calls with the microtasks they leave\<close>

definition socket_data :: "parser \<Rightarrow> nat \<Rightarrow> string \<Rightarrow> Transport \<Rightarrow> Transport" where
  "socket_data parse sock data s = runMicrotasks (onData parse sock data s)"

definition socket_close :: "Transport \<Rightarrow> Transport" where
  "socket_close s = runMicrotasks (onClose s)"

definition close_call :: "Transport \<Rightarrow> Transport" where
  "close_call s = runMicrotasks (close s)"

section \<open>\<^verbatim>\<open>OSClient.call\<close>\<close>

text \<open>The tag \<^verbatim>\<open>response.op\<close> and the payload \<^verbatim>\<open>response.data\<close>, if present.\<close>

fun op :: "Response \<Rightarrow> string" where
  "op (OkResponse _ _) = ''ok''"
| "op (ErrorResponse _ _ _) = ''error''"
| "op (DoneResponse _) = ''done''"
| "op (RedirectResponse _ _) = ''redirect''"
| "op (ItemResponse _ _) = ''item''"
| "op (DataResponse _ _) = ''data''"
| "op (EventResponse _ _) = ''event''"
| "op (ProgressResponse _ _) = ''progress''"




section \<open>Sequences of calls and callbacks\<close>

text \<open>
  What can happen to one \<^verbatim>\<open>Transport\<close>: the calls of its public methods, the pulls on
  the generators of \<^verbatim>\<open>stream\<close>, and the callbacks of timers and sockets. The results of
  the calls are read from the state (\<open>promises\<close>, \<open>attempts\<close>, \<open>delivered\<close>), those of
  \<^verbatim>\<open>generateId\<close> by \<open>generated\<close>.
\<close>

datatype Op =
    GenerateId
  | Connect ConnectOptions
  | ConnectTimerFires nat
  | SocketOpen nat nat
  | SocketError nat string
  | Close
  | SocketClose
  | Send Request "nat option"
  | TimerFires nat
  | Stream Request
  | Next nat
  | SocketData nat string

fun exec :: "parser \<Rightarrow> Op \<Rightarrow> Transport \<Rightarrow> Transport" where
  "exec parse GenerateId s = snd (generateId s)"
| "exec parse (Connect options) s = snd (connect options s)"
| "exec parse (ConnectTimerFires a) s = connectTimerFires a s"
| "exec parse (SocketOpen a sock) s = socket_open a sock s"
| "exec parse (SocketError a msg) s = socket_error a msg s"
| "exec parse Close s = close_call s"
| "exec parse SocketClose s = socket_close s"
| "exec parse (Send req timeout_opt) s = snd (send req timeout_opt s)"
| "exec parse (TimerFires t) s = timerFires t s"
| "exec parse (Stream req) s = snd (stream req s)"
| "exec parse (Next k) s = generator_next k s"
| "exec parse (SocketData sock data) s = socket_data parse sock data s"

fun run :: "parser \<Rightarrow> Op list \<Rightarrow> Transport \<Rightarrow> Transport" where
  "run parse [] s = s"
| "run parse (x # xs) s = run parse xs (exec parse x s)"

text \<open>The ids that the \<^verbatim>\<open>generateId\<close> calls of a sequence return, in order.\<close>

fun generated :: "parser \<Rightarrow> Op list \<Rightarrow> Transport \<Rightarrow> string list" where
  "generated parse [] s = []"
| "generated parse (x # xs) s =
     (if x = GenerateId then [fst (generateId s)] else [])
     @ generated parse xs (exec parse x s)"

text \<open>How many \<^verbatim>\<open>generateId\<close> calls a sequence makes.\<close>

definition calls :: "Op list \<Rightarrow> nat" where
  "calls xs = length (filter (\<lambda>x. x = GenerateId) xs)"

text \<open>The timer and socket callbacks that belong to the connection attempt \<open>a\<close>.\<close>

fun ofAttempt :: "nat \<Rightarrow> Op \<Rightarrow> bool" where
  "ofAttempt a (ConnectTimerFires b) = (a = b)"
| "ofAttempt a (SocketOpen b sock) = (a = b)"
| "ofAttempt a (SocketError b msg) = (a = b)"
| "ofAttempt a _ = False"

section \<open>Conditions on states\<close>

text \<open>
  Whether a closure in the chain behind \<^verbatim>\<open>this.onResponse\<close> takes the responses of the
  id \<open>i\<close>: a generator of \<^verbatim>\<open>stream\<close> was started with that id and its closure is still
  installed.
\<close>

fun overrides :: "Handler \<Rightarrow> string \<Rightarrow> bool" where
  "overrides Proto i = False"
| "overrides (Override j k original) i = (i = j \<or> overrides original i)"

text \<open>
  The promises and timers that the waiters in the table hold have been created, and so
  have the armed timers and the promises their callbacks reject: their handles are
  below the next ones. This holds in every state that a new \<^verbatim>\<open>Transport\<close> reaches, and
  it makes the promise and the timer of a new \<^verbatim>\<open>send\<close> different from all those in use.
\<close>

definition waiters_allocated :: "Transport \<Rightarrow> bool" where
  "waiters_allocated s =
     list_all (\<lambda>(i, w). (case resolve w of ResolvePromise p \<Rightarrow> p < nextPromise s | ResolveNoop \<Rightarrow> True)
                       \<and> (case reject w of RejectPromise p \<Rightarrow> p < nextPromise s
                            | StreamErrorHandler k \<Rightarrow> True)
                       \<and> (case timer w of Some t \<Rightarrow> t < nextTimer s | None \<Rightarrow> True))
       (pending s)"

definition timers_allocated :: "Transport \<Rightarrow> bool" where
  "timers_allocated s \<longleftrightarrow>
     (\<forall>u i q tmo. timers s u = Some (i, q, tmo) \<longrightarrow> q < nextPromise s \<and> u < nextTimer s)"

text \<open>From \<open>s\<close> to \<open>s'\<close> timers were cleared at most: none was armed or changed.\<close>

definition timers_only_cleared :: "Transport \<Rightarrow> Transport \<Rightarrow> bool" where
  "timers_only_cleared s s' \<longleftrightarrow> (\<forall>u. timers s' u = None \<or> timers s' u = timers s u)"

definition allocated :: "Transport \<Rightarrow> bool" where
  "allocated s \<longleftrightarrow> waiters_allocated s \<and> timers_allocated s"

text \<open>
  Two conditions used in the proofs about one waiter of \<^verbatim>\<open>send\<close>, registered under the id
  \<open>X\<close> with the promise \<open>p\<close> and the timer \<open>t\<close>. \<open>others_free\<close>: no waiter under another id
  holds that promise or that timer. \<open>tracked\<close>: the waiter is in the table with the
  responses \<open>acc\<close> collected so far, its promise is pending, its timer is armed, and
  no generator takes the responses of \<open>X\<close>.
\<close>

definition others_free :: "Transport \<Rightarrow> string \<Rightarrow> nat \<Rightarrow> nat \<Rightarrow> bool" where
  "others_free s X p t \<longleftrightarrow>
     (\<forall>Y w. Y \<noteq> X \<longrightarrow> map_of (pending s) Y = Some w \<longrightarrow>
        resolve w \<noteq> ResolvePromise p \<and> timer w \<noteq> Some t)"

definition tracked :: "Transport \<Rightarrow> string \<Rightarrow> nat \<Rightarrow> nat \<Rightarrow> nat \<Rightarrow> Response list \<Rightarrow> bool" where
  "tracked s X p t tmo acc \<longleftrightarrow>
     map_of (pending s) X
       = Some \<lparr> resolve = ResolvePromise p, reject = RejectPromise p, responses = acc,
                timer = Some t \<rparr>
     \<and> promises s p = Pending
     \<and> timers s t = Some (X, p, tmo)
     \<and> others_free s X p t
     \<and> \<not> overrides (onResponse s) X"


text \<open>No waiter in the table holds the promise \<open>p\<close>.\<close>

definition unheld :: "Transport \<Rightarrow> nat \<Rightarrow> bool" where
  "unheld s p \<longleftrightarrow>
     (\<forall>i w. (i, w) \<in> set (pending s) \<longrightarrow>
        resolve w \<noteq> ResolvePromise p \<and> reject w \<noteq> RejectPromise p)"

text \<open>
  Conditions used in the proofs about a \<^verbatim>\<open>send\<close> whose id is in use.
  \<open>holds w p\<close>: one of the two closures of the waiter \<open>w\<close> settles the promise \<open>p\<close>.
  \<open>exclusive\<close>: the table has one entry for a key, as a \<^verbatim>\<open>Map\<close> has; no promise is held
  by waiters under two keys; no promise is rejected by two armed timers. This holds in
  every state that a new \<^verbatim>\<open>Transport\<close> reaches. \<open>narrows s s'\<close>: from \<open>s\<close> to \<open>s'\<close> the
  table has gained no holder of a promise, that is, every waiter of \<open>s'\<close> holds what a
  waiter under the same key held in \<open>s\<close>, or nothing, and the keys have stayed
  distinct. \<open>orphan s p t\<close>: the promise \<open>p\<close> has been created, no waiter in the table
  holds it, and no timer but \<open>t\<close> rejects it.
\<close>

definition holds :: "PendingRequest \<Rightarrow> nat \<Rightarrow> bool" where
  "holds w p \<longleftrightarrow> resolve w = ResolvePromise p \<or> reject w = RejectPromise p"

definition exclusive :: "Transport \<Rightarrow> bool" where
  "exclusive s \<longleftrightarrow>
     distinct (map fst (pending s))
     \<and> (\<forall>i w j v p. (i, w) \<in> set (pending s) \<longrightarrow> (j, v) \<in> set (pending s) \<longrightarrow>
          holds w p \<longrightarrow> holds v p \<longrightarrow> i = j)
     \<and> (\<forall>u u' i i' p tmo tmo'. timers s u = Some (i, p, tmo) \<longrightarrow>
          timers s u' = Some (i', p, tmo') \<longrightarrow> u = u')"

definition narrows :: "Transport \<Rightarrow> Transport \<Rightarrow> bool" where
  "narrows s s' \<longleftrightarrow>
     (distinct (map fst (pending s)) \<longrightarrow> distinct (map fst (pending s')))
     \<and> (\<forall>i w. (i, w) \<in> set (pending s') \<longrightarrow>
          (\<exists>w0. (i, w0) \<in> set (pending s) \<and> resolve w0 = resolve w \<and> reject w0 = reject w)
          \<or> (\<forall>p. \<not> holds w p))"

definition orphan :: "Transport \<Rightarrow> nat \<Rightarrow> nat \<Rightarrow> bool" where
  "orphan s p t \<longleftrightarrow>
     unheld s p \<and> p < nextPromise s
     \<and> (\<forall>u i tmo. timers s u = Some (i, p, tmo) \<longrightarrow> u = t)"

text \<open>The error that \<^verbatim>\<open>close\<close> and \<^verbatim>\<open>onClose\<close> pass to every waiter.\<close>

definition RESET :: Error where
  "RESET = ConnectionError ''ECONNRESET'' ''Connection closed''"

text \<open>
  Two conditions used in the proofs about \<^verbatim>\<open>close\<close>. \<open>told\<close>: the generator \<open>k\<close> has been
  given the reset error. \<open>woken\<close>: moreover its pull was waiting, \<^verbatim>\<open>resolver\<close> was called
  with \<^verbatim>\<open>done: true\<close>, and the continuation is queued.
\<close>

definition told :: "Transport \<Rightarrow> nat \<Rightarrow> bool" where
  "told s k \<longleftrightarrow> error (streams s k) = Some RESET"

definition woken :: "Transport \<Rightarrow> nat \<Rightarrow> bool" where
  "woken s k \<longleftrightarrow>
     error (streams s k) = Some RESET \<and> gen (streams s k) = ResolverCalled IterDone
     \<and> \<not> resolver (streams s k) \<and> k \<in> set (microtasks s)"

section \<open>Frames, in the words of the specification\<close>

text \<open>
  The specification of \<^verbatim>\<open>onData\<close> speaks of the complete frames of the buffered text,
  each without its delimiter, and of the unconsumed partial frame after them.
  \<open>spec_frames\<close> splits a text that way; it is the reference that the loop of the code
  is compared with.
\<close>

fun spec_frames :: "string \<Rightarrow> string list \<times> string" where
  "spec_frames [] = ([], [])"
| "spec_frames (c # cs) =
     (if c = newline then ([] # fst (spec_frames cs), snd (spec_frames cs))
      else (case fst (spec_frames cs) of
              [] \<Rightarrow> ([], c # snd (spec_frames cs))
            | f # fs \<Rightarrow> ((c # f) # fs, snd (spec_frames cs))))"

text \<open>
  The messages of a list of frames: empty and white-space-only frames are skipped,
  frames that do not parse are dropped.
\<close>

definition spec_messages :: "parser \<Rightarrow> string list \<Rightarrow> Response list" where
  "spec_messages parse fs = List.map_filter (\<lambda>f. if trim f = [] then None else parse f) fs"

section \<open>Facts about the operations\<close>

lemma nextId_settle [simp]: "nextId (settle p v s) = nextId s"
  by (simp add: settle_def Let_def )

lemma nextId_clearTimeout [simp]: "nextId (clearTimeout t s) = nextId s"
  by (simp add: clearTimeout_def Let_def )

lemma nextId_updStream [simp]: "nextId (updStream k f s) = nextId s"
  by (simp add: updStream_def Let_def )

lemma nextId_updAttempt [simp]: "nextId (updAttempt a f s) = nextId s"
  by (simp add: updAttempt_def Let_def )

lemma nextId_resolveAttempt [simp]: "nextId (resolveAttempt a s) = nextId s"
  by (simp add: resolveAttempt_def Let_def )

lemma nextId_rejectAttempt [simp]: "nextId (rejectAttempt a e s) = nextId s"
  by (simp add: rejectAttempt_def Let_def )

lemma nextId_connectTimerFires [simp]: "nextId (connectTimerFires a s) = nextId s"
  by (simp add: connectTimerFires_def Let_def )

lemma nextId_socket_open [simp]: "nextId (socket_open a sock s) = nextId s"
  by (simp add: socket_open_def Let_def )

lemma nextId_socket_error [simp]: "nextId (socket_error a msg s) = nextId s"
  by (simp add: socket_error_def Let_def )

lemma nextId_errorHandler [simp]: "nextId (errorHandler k e s) = nextId s"
  by (simp add: errorHandler_def Let_def )

lemma nextId_handler [simp]: "nextId (handler k r s) = nextId s"
  by (simp add: handler_def Let_def )

lemma nextId_rejectWaiter [simp]: "nextId (rejectWaiter w e s) = nextId s"
  by (simp add: rejectWaiter_def Let_def split: RejectFn.splits)

lemma nextId_rejectAll [simp]: "nextId (rejectAll es s) = nextId s"
  by (induction es s rule: rejectAll.induct) (simp_all add: Let_def split: option.splits)

lemma nextId_close [simp]: "nextId (close s) = nextId s"
  by (simp add: close_def Let_def split: option.splits)

lemma nextId_onClose [simp]: "nextId (onClose s) = nextId s"
  by (simp add: onClose_def Let_def )

lemma nextId_send [simp]: "nextId (snd (send req tmo s)) = nextId s"
  by (simp add: send_def Let_def split: option.splits)

lemma nextId_timerFires [simp]: "nextId (timerFires t s) = nextId s"
  by (simp add: timerFires_def Let_def split: option.splits)

lemma nextId_onResponse_method [simp]: "nextId (onResponse_method r s) = nextId s"
  by (simp add: onResponse_method_def Let_def split: option.splits ResolveFn.splits)

lemma nextId_dispatch [simp]: "nextId (dispatch h r s) = nextId s"
  by (induction h) simp_all

lemma nextId_this_onResponse [simp]: "nextId (this_onResponse r s) = nextId s"
  by (simp add: this_onResponse_def Let_def )

lemma nextId_stream [simp]: "nextId (snd (stream req s)) = nextId s"
  by (simp add: stream_def Let_def )

lemma nextId_deliver [simp]: "nextId (deliver k out s) = nextId s"
  by (simp add: deliver_def Let_def )

lemma nextId_finally_f [simp]: "nextId (finally' k s) = nextId s"
  by (simp add: finally'_def Let_def )

lemma nextId_finish [simp]: "nextId (finish k out s) = nextId s"
  by (simp add: finish_def Let_def )

lemma nextId_afterLoop [simp]: "nextId (afterLoop k s) = nextId s"
  by (simp add: afterLoop_def Let_def split: option.splits)

lemma nextId_loop [simp]: "nextId (loop k s) = nextId s"
  by (simp add: loop_def Let_def split: list.splits)

lemma nextId_start [simp]: "nextId (start k s) = nextId s"
  by (simp add: start_def Let_def split: option.splits)

lemma nextId_generator_next [simp]: "nextId (generator_next k s) = nextId s"
  by (simp add: generator_next_def Let_def split: GenState.splits)

lemma nextId_resume [simp]: "nextId (resume k s) = nextId s"
  by (simp add: resume_def Let_def split: GenState.splits IterResult.splits)

lemma nextId_runAll [simp]: "nextId (runAll ks s) = nextId s"
  by (induction ks arbitrary: s) simp_all

lemma nextId_runMicrotasks [simp]: "nextId (runMicrotasks s) = nextId s"
  by (simp add: runMicrotasks_def Let_def )

lemma nextId_onData_loop [simp]: "nextId (snd (onData_loop parse b s)) = nextId s"
proof (induction parse b s rule: onData_loop.induct)
  case (1 parse buffer s)
  show ?case
    by (subst onData_loop.simps) (simp add: 1 Let_def split: option.splits)
qed

lemma nextId_onData [simp]: "nextId (onData parse sock d s) = nextId s"
  by (simp add: onData_def Let_def )

lemma nextId_socket_data [simp]: "nextId (socket_data parse sock d s) = nextId s"
  by (simp add: socket_data_def Let_def )

lemma nextId_socket_close [simp]: "nextId (socket_close s) = nextId s"
  by (simp add: socket_close_def Let_def )

lemma nextId_close_call [simp]: "nextId (close_call s) = nextId s"
  by (simp add: close_call_def Let_def )

lemma nextId_connect [simp]: "nextId (snd (connect options s)) = nextId s"
  by (simp add: connect_def Let_def )

lemma attempts_settle [simp]: "attempts (settle p v s) = attempts s"
  by (simp add: settle_def Let_def )

lemma attempts_clearTimeout [simp]: "attempts (clearTimeout t s) = attempts s"
  by (simp add: clearTimeout_def Let_def )

lemma attempts_updStream [simp]: "attempts (updStream k f s) = attempts s"
  by (simp add: updStream_def Let_def )

lemma attempts_errorHandler [simp]: "attempts (errorHandler k e s) = attempts s"
  by (simp add: errorHandler_def Let_def )

lemma attempts_handler [simp]: "attempts (handler k r s) = attempts s"
  by (simp add: handler_def Let_def )

lemma attempts_rejectWaiter [simp]: "attempts (rejectWaiter w e s) = attempts s"
  by (simp add: rejectWaiter_def Let_def split: RejectFn.splits)

lemma attempts_rejectAll [simp]: "attempts (rejectAll es s) = attempts s"
  by (induction es s rule: rejectAll.induct) (simp_all add: Let_def split: option.splits)

lemma attempts_close [simp]: "attempts (close s) = attempts s"
  by (simp add: close_def Let_def split: option.splits)

lemma attempts_onClose [simp]: "attempts (onClose s) = attempts s"
  by (simp add: onClose_def Let_def )

lemma attempts_send [simp]: "attempts (snd (send req tmo s)) = attempts s"
  by (simp add: send_def Let_def split: option.splits)

lemma attempts_timerFires [simp]: "attempts (timerFires t s) = attempts s"
  by (simp add: timerFires_def Let_def split: option.splits)

lemma attempts_onResponse_method [simp]: "attempts (onResponse_method r s) = attempts s"
  by (simp add: onResponse_method_def Let_def split: option.splits ResolveFn.splits)

lemma attempts_dispatch [simp]: "attempts (dispatch h r s) = attempts s"
  by (induction h) simp_all

lemma attempts_this_onResponse [simp]: "attempts (this_onResponse r s) = attempts s"
  by (simp add: this_onResponse_def Let_def )

lemma attempts_stream [simp]: "attempts (snd (stream req s)) = attempts s"
  by (simp add: stream_def Let_def )

lemma attempts_deliver [simp]: "attempts (deliver k out s) = attempts s"
  by (simp add: deliver_def Let_def )

lemma attempts_finally_f [simp]: "attempts (finally' k s) = attempts s"
  by (simp add: finally'_def Let_def )

lemma attempts_finish [simp]: "attempts (finish k out s) = attempts s"
  by (simp add: finish_def Let_def )

lemma attempts_afterLoop [simp]: "attempts (afterLoop k s) = attempts s"
  by (simp add: afterLoop_def Let_def split: option.splits)

lemma attempts_loop [simp]: "attempts (loop k s) = attempts s"
  by (simp add: loop_def Let_def split: list.splits)

lemma attempts_start [simp]: "attempts (start k s) = attempts s"
  by (simp add: start_def Let_def split: option.splits)

lemma attempts_generator_next [simp]: "attempts (generator_next k s) = attempts s"
  by (simp add: generator_next_def Let_def split: GenState.splits)

lemma attempts_resume [simp]: "attempts (resume k s) = attempts s"
  by (simp add: resume_def Let_def split: GenState.splits IterResult.splits)

lemma attempts_runAll [simp]: "attempts (runAll ks s) = attempts s"
  by (induction ks arbitrary: s) simp_all

lemma attempts_runMicrotasks [simp]: "attempts (runMicrotasks s) = attempts s"
  by (simp add: runMicrotasks_def Let_def )

lemma attempts_onData_loop [simp]: "attempts (snd (onData_loop parse b s)) = attempts s"
proof (induction parse b s rule: onData_loop.induct)
  case (1 parse buffer s)
  show ?case
    by (subst onData_loop.simps) (simp add: 1 Let_def split: option.splits)
qed

lemma attempts_onData [simp]: "attempts (onData parse sock d s) = attempts s"
  by (simp add: onData_def Let_def )

lemma attempts_socket_data [simp]: "attempts (socket_data parse sock d s) = attempts s"
  by (simp add: socket_data_def Let_def )

lemma attempts_socket_close [simp]: "attempts (socket_close s) = attempts s"
  by (simp add: socket_close_def Let_def )

lemma attempts_close_call [simp]: "attempts (close_call s) = attempts s"
  by (simp add: close_call_def Let_def )

lemma attempts_generateId [simp]: "attempts (snd (generateId s)) = attempts s"
  by (simp add: generateId_def Let_def )

lemma nextAttempt_settle [simp]: "nextAttempt (settle p v s) = nextAttempt s"
  by (simp add: settle_def Let_def )

lemma nextAttempt_clearTimeout [simp]: "nextAttempt (clearTimeout t s) = nextAttempt s"
  by (simp add: clearTimeout_def Let_def )

lemma nextAttempt_updStream [simp]: "nextAttempt (updStream k f s) = nextAttempt s"
  by (simp add: updStream_def Let_def )

lemma nextAttempt_updAttempt [simp]: "nextAttempt (updAttempt a f s) = nextAttempt s"
  by (simp add: updAttempt_def Let_def )

lemma nextAttempt_resolveAttempt [simp]: "nextAttempt (resolveAttempt a s) = nextAttempt s"
  by (simp add: resolveAttempt_def Let_def )

lemma nextAttempt_rejectAttempt [simp]: "nextAttempt (rejectAttempt a e s) = nextAttempt s"
  by (simp add: rejectAttempt_def Let_def )

lemma nextAttempt_connectTimerFires [simp]: "nextAttempt (connectTimerFires a s) = nextAttempt s"
  by (simp add: connectTimerFires_def Let_def )

lemma nextAttempt_socket_open [simp]: "nextAttempt (socket_open a sock s) = nextAttempt s"
  by (simp add: socket_open_def Let_def )

lemma nextAttempt_socket_error [simp]: "nextAttempt (socket_error a msg s) = nextAttempt s"
  by (simp add: socket_error_def Let_def )

lemma nextAttempt_errorHandler [simp]: "nextAttempt (errorHandler k e s) = nextAttempt s"
  by (simp add: errorHandler_def Let_def )

lemma nextAttempt_handler [simp]: "nextAttempt (handler k r s) = nextAttempt s"
  by (simp add: handler_def Let_def )

lemma nextAttempt_rejectWaiter [simp]: "nextAttempt (rejectWaiter w e s) = nextAttempt s"
  by (simp add: rejectWaiter_def Let_def split: RejectFn.splits)

lemma nextAttempt_rejectAll [simp]: "nextAttempt (rejectAll es s) = nextAttempt s"
  by (induction es s rule: rejectAll.induct) (simp_all add: Let_def split: option.splits)

lemma nextAttempt_close [simp]: "nextAttempt (close s) = nextAttempt s"
  by (simp add: close_def Let_def split: option.splits)

lemma nextAttempt_onClose [simp]: "nextAttempt (onClose s) = nextAttempt s"
  by (simp add: onClose_def Let_def )

lemma nextAttempt_send [simp]: "nextAttempt (snd (send req tmo s)) = nextAttempt s"
  by (simp add: send_def Let_def split: option.splits)

lemma nextAttempt_timerFires [simp]: "nextAttempt (timerFires t s) = nextAttempt s"
  by (simp add: timerFires_def Let_def split: option.splits)

lemma nextAttempt_onResponse_method [simp]: "nextAttempt (onResponse_method r s) = nextAttempt s"
  by (simp add: onResponse_method_def Let_def split: option.splits ResolveFn.splits)

lemma nextAttempt_dispatch [simp]: "nextAttempt (dispatch h r s) = nextAttempt s"
  by (induction h) simp_all

lemma nextAttempt_this_onResponse [simp]: "nextAttempt (this_onResponse r s) = nextAttempt s"
  by (simp add: this_onResponse_def Let_def )

lemma nextAttempt_stream [simp]: "nextAttempt (snd (stream req s)) = nextAttempt s"
  by (simp add: stream_def Let_def )

lemma nextAttempt_deliver [simp]: "nextAttempt (deliver k out s) = nextAttempt s"
  by (simp add: deliver_def Let_def )

lemma nextAttempt_finally_f [simp]: "nextAttempt (finally' k s) = nextAttempt s"
  by (simp add: finally'_def Let_def )

lemma nextAttempt_finish [simp]: "nextAttempt (finish k out s) = nextAttempt s"
  by (simp add: finish_def Let_def )

lemma nextAttempt_afterLoop [simp]: "nextAttempt (afterLoop k s) = nextAttempt s"
  by (simp add: afterLoop_def Let_def split: option.splits)

lemma nextAttempt_loop [simp]: "nextAttempt (loop k s) = nextAttempt s"
  by (simp add: loop_def Let_def split: list.splits)

lemma nextAttempt_start [simp]: "nextAttempt (start k s) = nextAttempt s"
  by (simp add: start_def Let_def split: option.splits)

lemma nextAttempt_generator_next [simp]: "nextAttempt (generator_next k s) = nextAttempt s"
  by (simp add: generator_next_def Let_def split: GenState.splits)

lemma nextAttempt_resume [simp]: "nextAttempt (resume k s) = nextAttempt s"
  by (simp add: resume_def Let_def split: GenState.splits IterResult.splits)

lemma nextAttempt_runAll [simp]: "nextAttempt (runAll ks s) = nextAttempt s"
  by (induction ks arbitrary: s) simp_all

lemma nextAttempt_runMicrotasks [simp]: "nextAttempt (runMicrotasks s) = nextAttempt s"
  by (simp add: runMicrotasks_def Let_def )

lemma nextAttempt_onData_loop [simp]: "nextAttempt (snd (onData_loop parse b s)) = nextAttempt s"
proof (induction parse b s rule: onData_loop.induct)
  case (1 parse buffer s)
  show ?case
    by (subst onData_loop.simps) (simp add: 1 Let_def split: option.splits)
qed

lemma nextAttempt_onData [simp]: "nextAttempt (onData parse sock d s) = nextAttempt s"
  by (simp add: onData_def Let_def )

lemma nextAttempt_socket_data [simp]: "nextAttempt (socket_data parse sock d s) = nextAttempt s"
  by (simp add: socket_data_def Let_def )

lemma nextAttempt_socket_close [simp]: "nextAttempt (socket_close s) = nextAttempt s"
  by (simp add: socket_close_def Let_def )

lemma nextAttempt_close_call [simp]: "nextAttempt (close_call s) = nextAttempt s"
  by (simp add: close_call_def Let_def )

lemma nextAttempt_generateId [simp]: "nextAttempt (snd (generateId s)) = nextAttempt s"
  by (simp add: generateId_def Let_def )

lemma buffers_settle [simp]: "buffers (settle p v s) = buffers s"
  by (simp add: settle_def Let_def )

lemma buffers_clearTimeout [simp]: "buffers (clearTimeout t s) = buffers s"
  by (simp add: clearTimeout_def Let_def )

lemma buffers_updStream [simp]: "buffers (updStream k f s) = buffers s"
  by (simp add: updStream_def Let_def )

lemma buffers_updAttempt [simp]: "buffers (updAttempt a f s) = buffers s"
  by (simp add: updAttempt_def Let_def )

lemma buffers_resolveAttempt [simp]: "buffers (resolveAttempt a s) = buffers s"
  by (simp add: resolveAttempt_def Let_def )

lemma buffers_rejectAttempt [simp]: "buffers (rejectAttempt a e s) = buffers s"
  by (simp add: rejectAttempt_def Let_def )

lemma buffers_connectTimerFires [simp]: "buffers (connectTimerFires a s) = buffers s"
  by (simp add: connectTimerFires_def Let_def )

lemma buffers_socket_error [simp]: "buffers (socket_error a msg s) = buffers s"
  by (simp add: socket_error_def Let_def )

lemma buffers_errorHandler [simp]: "buffers (errorHandler k e s) = buffers s"
  by (simp add: errorHandler_def Let_def )

lemma buffers_handler [simp]: "buffers (handler k r s) = buffers s"
  by (simp add: handler_def Let_def )

lemma buffers_rejectWaiter [simp]: "buffers (rejectWaiter w e s) = buffers s"
  by (simp add: rejectWaiter_def Let_def split: RejectFn.splits)

lemma buffers_rejectAll [simp]: "buffers (rejectAll es s) = buffers s"
  by (induction es s rule: rejectAll.induct) (simp_all add: Let_def split: option.splits)

lemma buffers_close [simp]: "buffers (close s) = buffers s"
  by (simp add: close_def Let_def split: option.splits)

lemma buffers_onClose [simp]: "buffers (onClose s) = buffers s"
  by (simp add: onClose_def Let_def )

lemma buffers_send [simp]: "buffers (snd (send req tmo s)) = buffers s"
  by (simp add: send_def Let_def split: option.splits)

lemma buffers_timerFires [simp]: "buffers (timerFires t s) = buffers s"
  by (simp add: timerFires_def Let_def split: option.splits)

lemma buffers_onResponse_method [simp]: "buffers (onResponse_method r s) = buffers s"
  by (simp add: onResponse_method_def Let_def split: option.splits ResolveFn.splits)

lemma buffers_dispatch [simp]: "buffers (dispatch h r s) = buffers s"
  by (induction h) simp_all

lemma buffers_this_onResponse [simp]: "buffers (this_onResponse r s) = buffers s"
  by (simp add: this_onResponse_def Let_def )

lemma buffers_stream [simp]: "buffers (snd (stream req s)) = buffers s"
  by (simp add: stream_def Let_def )

lemma buffers_deliver [simp]: "buffers (deliver k out s) = buffers s"
  by (simp add: deliver_def Let_def )

lemma buffers_finally_f [simp]: "buffers (finally' k s) = buffers s"
  by (simp add: finally'_def Let_def )

lemma buffers_finish [simp]: "buffers (finish k out s) = buffers s"
  by (simp add: finish_def Let_def )

lemma buffers_afterLoop [simp]: "buffers (afterLoop k s) = buffers s"
  by (simp add: afterLoop_def Let_def split: option.splits)

lemma buffers_loop [simp]: "buffers (loop k s) = buffers s"
  by (simp add: loop_def Let_def split: list.splits)

lemma buffers_start [simp]: "buffers (start k s) = buffers s"
  by (simp add: start_def Let_def split: option.splits)

lemma buffers_generator_next [simp]: "buffers (generator_next k s) = buffers s"
  by (simp add: generator_next_def Let_def split: GenState.splits)

lemma buffers_resume [simp]: "buffers (resume k s) = buffers s"
  by (simp add: resume_def Let_def split: GenState.splits IterResult.splits)

lemma buffers_runAll [simp]: "buffers (runAll ks s) = buffers s"
  by (induction ks arbitrary: s) simp_all

lemma buffers_runMicrotasks [simp]: "buffers (runMicrotasks s) = buffers s"
  by (simp add: runMicrotasks_def Let_def )

lemma buffers_onData_loop [simp]: "buffers (snd (onData_loop parse b s)) = buffers s"
proof (induction parse b s rule: onData_loop.induct)
  case (1 parse buffer s)
  show ?case
    by (subst onData_loop.simps) (simp add: 1 Let_def split: option.splits)
qed

lemma buffers_socket_close [simp]: "buffers (socket_close s) = buffers s"
  by (simp add: socket_close_def Let_def )

lemma buffers_close_call [simp]: "buffers (close_call s) = buffers s"
  by (simp add: close_call_def Let_def )

lemma buffers_connect [simp]: "buffers (snd (connect options s)) = buffers s"
  by (simp add: connect_def Let_def )

lemma buffers_generateId [simp]: "buffers (snd (generateId s)) = buffers s"
  by (simp add: generateId_def Let_def )

lemma nextPromise_settle [simp]: "nextPromise (settle p v s) = nextPromise s"
  by (simp add: settle_def Let_def )

lemma nextPromise_clearTimeout [simp]: "nextPromise (clearTimeout t s) = nextPromise s"
  by (simp add: clearTimeout_def Let_def )

lemma nextPromise_updStream [simp]: "nextPromise (updStream k f s) = nextPromise s"
  by (simp add: updStream_def Let_def )

lemma nextPromise_updAttempt [simp]: "nextPromise (updAttempt a f s) = nextPromise s"
  by (simp add: updAttempt_def Let_def )

lemma nextPromise_resolveAttempt [simp]: "nextPromise (resolveAttempt a s) = nextPromise s"
  by (simp add: resolveAttempt_def Let_def )

lemma nextPromise_rejectAttempt [simp]: "nextPromise (rejectAttempt a e s) = nextPromise s"
  by (simp add: rejectAttempt_def Let_def )

lemma nextPromise_connectTimerFires [simp]: "nextPromise (connectTimerFires a s) = nextPromise s"
  by (simp add: connectTimerFires_def Let_def )

lemma nextPromise_socket_open [simp]: "nextPromise (socket_open a sock s) = nextPromise s"
  by (simp add: socket_open_def Let_def )

lemma nextPromise_socket_error [simp]: "nextPromise (socket_error a msg s) = nextPromise s"
  by (simp add: socket_error_def Let_def )

lemma nextPromise_errorHandler [simp]: "nextPromise (errorHandler k e s) = nextPromise s"
  by (simp add: errorHandler_def Let_def )

lemma nextPromise_handler [simp]: "nextPromise (handler k r s) = nextPromise s"
  by (simp add: handler_def Let_def )

lemma nextPromise_rejectWaiter [simp]: "nextPromise (rejectWaiter w e s) = nextPromise s"
  by (simp add: rejectWaiter_def Let_def split: RejectFn.splits)

lemma nextPromise_rejectAll [simp]: "nextPromise (rejectAll es s) = nextPromise s"
  by (induction es s rule: rejectAll.induct) (simp_all add: Let_def split: option.splits)

lemma nextPromise_close [simp]: "nextPromise (close s) = nextPromise s"
  by (simp add: close_def Let_def split: option.splits)

lemma nextPromise_onClose [simp]: "nextPromise (onClose s) = nextPromise s"
  by (simp add: onClose_def Let_def )

lemma nextPromise_timerFires [simp]: "nextPromise (timerFires t s) = nextPromise s"
  by (simp add: timerFires_def Let_def split: option.splits)

lemma nextPromise_onResponse_method [simp]: "nextPromise (onResponse_method r s) = nextPromise s"
  by (simp add: onResponse_method_def Let_def split: option.splits ResolveFn.splits)

lemma nextPromise_dispatch [simp]: "nextPromise (dispatch h r s) = nextPromise s"
  by (induction h) simp_all

lemma nextPromise_this_onResponse [simp]: "nextPromise (this_onResponse r s) = nextPromise s"
  by (simp add: this_onResponse_def Let_def )

lemma nextPromise_stream [simp]: "nextPromise (snd (stream req s)) = nextPromise s"
  by (simp add: stream_def Let_def )

lemma nextPromise_deliver [simp]: "nextPromise (deliver k out s) = nextPromise s"
  by (simp add: deliver_def Let_def )

lemma nextPromise_finally_f [simp]: "nextPromise (finally' k s) = nextPromise s"
  by (simp add: finally'_def Let_def )

lemma nextPromise_finish [simp]: "nextPromise (finish k out s) = nextPromise s"
  by (simp add: finish_def Let_def )

lemma nextPromise_afterLoop [simp]: "nextPromise (afterLoop k s) = nextPromise s"
  by (simp add: afterLoop_def Let_def split: option.splits)

lemma nextPromise_loop [simp]: "nextPromise (loop k s) = nextPromise s"
  by (simp add: loop_def Let_def split: list.splits)

lemma nextPromise_start [simp]: "nextPromise (start k s) = nextPromise s"
  by (simp add: start_def Let_def split: option.splits)

lemma nextPromise_generator_next [simp]: "nextPromise (generator_next k s) = nextPromise s"
  by (simp add: generator_next_def Let_def split: GenState.splits)

lemma nextPromise_resume [simp]: "nextPromise (resume k s) = nextPromise s"
  by (simp add: resume_def Let_def split: GenState.splits IterResult.splits)

lemma nextPromise_runAll [simp]: "nextPromise (runAll ks s) = nextPromise s"
  by (induction ks arbitrary: s) simp_all

lemma nextPromise_runMicrotasks [simp]: "nextPromise (runMicrotasks s) = nextPromise s"
  by (simp add: runMicrotasks_def Let_def )

lemma nextPromise_onData_loop [simp]: "nextPromise (snd (onData_loop parse b s)) = nextPromise s"
proof (induction parse b s rule: onData_loop.induct)
  case (1 parse buffer s)
  show ?case
    by (subst onData_loop.simps) (simp add: 1 Let_def split: option.splits)
qed

lemma nextPromise_onData [simp]: "nextPromise (onData parse sock d s) = nextPromise s"
  by (simp add: onData_def Let_def )

lemma nextPromise_socket_data [simp]: "nextPromise (socket_data parse sock d s) = nextPromise s"
  by (simp add: socket_data_def Let_def )

lemma nextPromise_socket_close [simp]: "nextPromise (socket_close s) = nextPromise s"
  by (simp add: socket_close_def Let_def )

lemma nextPromise_close_call [simp]: "nextPromise (close_call s) = nextPromise s"
  by (simp add: close_call_def Let_def )

lemma nextPromise_connect [simp]: "nextPromise (snd (connect options s)) = nextPromise s"
  by (simp add: connect_def Let_def )

lemma nextPromise_generateId [simp]: "nextPromise (snd (generateId s)) = nextPromise s"
  by (simp add: generateId_def Let_def )

lemma nextTimer_settle [simp]: "nextTimer (settle p v s) = nextTimer s"
  by (simp add: settle_def Let_def )

lemma nextTimer_clearTimeout [simp]: "nextTimer (clearTimeout t s) = nextTimer s"
  by (simp add: clearTimeout_def Let_def )

lemma nextTimer_updStream [simp]: "nextTimer (updStream k f s) = nextTimer s"
  by (simp add: updStream_def Let_def )

lemma nextTimer_updAttempt [simp]: "nextTimer (updAttempt a f s) = nextTimer s"
  by (simp add: updAttempt_def Let_def )

lemma nextTimer_resolveAttempt [simp]: "nextTimer (resolveAttempt a s) = nextTimer s"
  by (simp add: resolveAttempt_def Let_def )

lemma nextTimer_rejectAttempt [simp]: "nextTimer (rejectAttempt a e s) = nextTimer s"
  by (simp add: rejectAttempt_def Let_def )

lemma nextTimer_connectTimerFires [simp]: "nextTimer (connectTimerFires a s) = nextTimer s"
  by (simp add: connectTimerFires_def Let_def )

lemma nextTimer_socket_open [simp]: "nextTimer (socket_open a sock s) = nextTimer s"
  by (simp add: socket_open_def Let_def )

lemma nextTimer_socket_error [simp]: "nextTimer (socket_error a msg s) = nextTimer s"
  by (simp add: socket_error_def Let_def )

lemma nextTimer_errorHandler [simp]: "nextTimer (errorHandler k e s) = nextTimer s"
  by (simp add: errorHandler_def Let_def )

lemma nextTimer_handler [simp]: "nextTimer (handler k r s) = nextTimer s"
  by (simp add: handler_def Let_def )

lemma nextTimer_rejectWaiter [simp]: "nextTimer (rejectWaiter w e s) = nextTimer s"
  by (simp add: rejectWaiter_def Let_def split: RejectFn.splits)

lemma nextTimer_rejectAll [simp]: "nextTimer (rejectAll es s) = nextTimer s"
  by (induction es s rule: rejectAll.induct) (simp_all add: Let_def split: option.splits)

lemma nextTimer_close [simp]: "nextTimer (close s) = nextTimer s"
  by (simp add: close_def Let_def split: option.splits)

lemma nextTimer_onClose [simp]: "nextTimer (onClose s) = nextTimer s"
  by (simp add: onClose_def Let_def )

lemma nextTimer_timerFires [simp]: "nextTimer (timerFires t s) = nextTimer s"
  by (simp add: timerFires_def Let_def split: option.splits)

lemma nextTimer_onResponse_method [simp]: "nextTimer (onResponse_method r s) = nextTimer s"
  by (simp add: onResponse_method_def Let_def split: option.splits ResolveFn.splits)

lemma nextTimer_dispatch [simp]: "nextTimer (dispatch h r s) = nextTimer s"
  by (induction h) simp_all

lemma nextTimer_this_onResponse [simp]: "nextTimer (this_onResponse r s) = nextTimer s"
  by (simp add: this_onResponse_def Let_def )

lemma nextTimer_stream [simp]: "nextTimer (snd (stream req s)) = nextTimer s"
  by (simp add: stream_def Let_def )

lemma nextTimer_deliver [simp]: "nextTimer (deliver k out s) = nextTimer s"
  by (simp add: deliver_def Let_def )

lemma nextTimer_finally_f [simp]: "nextTimer (finally' k s) = nextTimer s"
  by (simp add: finally'_def Let_def )

lemma nextTimer_finish [simp]: "nextTimer (finish k out s) = nextTimer s"
  by (simp add: finish_def Let_def )

lemma nextTimer_afterLoop [simp]: "nextTimer (afterLoop k s) = nextTimer s"
  by (simp add: afterLoop_def Let_def split: option.splits)

lemma nextTimer_loop [simp]: "nextTimer (loop k s) = nextTimer s"
  by (simp add: loop_def Let_def split: list.splits)

lemma nextTimer_start [simp]: "nextTimer (start k s) = nextTimer s"
  by (simp add: start_def Let_def split: option.splits)

lemma nextTimer_generator_next [simp]: "nextTimer (generator_next k s) = nextTimer s"
  by (simp add: generator_next_def Let_def split: GenState.splits)

lemma nextTimer_resume [simp]: "nextTimer (resume k s) = nextTimer s"
  by (simp add: resume_def Let_def split: GenState.splits IterResult.splits)

lemma nextTimer_runAll [simp]: "nextTimer (runAll ks s) = nextTimer s"
  by (induction ks arbitrary: s) simp_all

lemma nextTimer_runMicrotasks [simp]: "nextTimer (runMicrotasks s) = nextTimer s"
  by (simp add: runMicrotasks_def Let_def )

lemma nextTimer_onData_loop [simp]: "nextTimer (snd (onData_loop parse b s)) = nextTimer s"
proof (induction parse b s rule: onData_loop.induct)
  case (1 parse buffer s)
  show ?case
    by (subst onData_loop.simps) (simp add: 1 Let_def split: option.splits)
qed

lemma nextTimer_onData [simp]: "nextTimer (onData parse sock d s) = nextTimer s"
  by (simp add: onData_def Let_def )

lemma nextTimer_socket_data [simp]: "nextTimer (socket_data parse sock d s) = nextTimer s"
  by (simp add: socket_data_def Let_def )

lemma nextTimer_socket_close [simp]: "nextTimer (socket_close s) = nextTimer s"
  by (simp add: socket_close_def Let_def )

lemma nextTimer_close_call [simp]: "nextTimer (close_call s) = nextTimer s"
  by (simp add: close_call_def Let_def )

lemma nextTimer_connect [simp]: "nextTimer (snd (connect options s)) = nextTimer s"
  by (simp add: connect_def Let_def )

lemma nextTimer_generateId [simp]: "nextTimer (snd (generateId s)) = nextTimer s"
  by (simp add: generateId_def Let_def )

lemma pending_settle [simp]: "pending (settle p v s) = pending s"
  by (simp add: settle_def Let_def )

lemma pending_clearTimeout [simp]: "pending (clearTimeout t s) = pending s"
  by (simp add: clearTimeout_def Let_def )

lemma pending_updStream [simp]: "pending (updStream k f s) = pending s"
  by (simp add: updStream_def Let_def )

lemma pending_updAttempt [simp]: "pending (updAttempt a f s) = pending s"
  by (simp add: updAttempt_def Let_def )

lemma pending_resolveAttempt [simp]: "pending (resolveAttempt a s) = pending s"
  by (simp add: resolveAttempt_def Let_def )

lemma pending_rejectAttempt [simp]: "pending (rejectAttempt a e s) = pending s"
  by (simp add: rejectAttempt_def Let_def )

lemma pending_connectTimerFires [simp]: "pending (connectTimerFires a s) = pending s"
  by (simp add: connectTimerFires_def Let_def )

lemma pending_socket_open [simp]: "pending (socket_open a sock s) = pending s"
  by (simp add: socket_open_def Let_def )

lemma pending_socket_error [simp]: "pending (socket_error a msg s) = pending s"
  by (simp add: socket_error_def Let_def )

lemma pending_errorHandler [simp]: "pending (errorHandler k e s) = pending s"
  by (simp add: errorHandler_def Let_def )

lemma pending_handler [simp]: "pending (handler k r s) = pending s"
  by (simp add: handler_def Let_def )

lemma pending_rejectWaiter [simp]: "pending (rejectWaiter w e s) = pending s"
  by (simp add: rejectWaiter_def Let_def split: RejectFn.splits)

lemma pending_stream [simp]: "pending (snd (stream req s)) = pending s"
  by (simp add: stream_def Let_def )

lemma pending_deliver [simp]: "pending (deliver k out s) = pending s"
  by (simp add: deliver_def Let_def )

lemma pending_connect [simp]: "pending (snd (connect options s)) = pending s"
  by (simp add: connect_def Let_def )

lemma pending_generateId [simp]: "pending (snd (generateId s)) = pending s"
  by (simp add: generateId_def Let_def )

lemma onResponse_settle [simp]: "onResponse (settle p v s) = onResponse s"
  by (simp add: settle_def Let_def )

lemma onResponse_clearTimeout [simp]: "onResponse (clearTimeout t s) = onResponse s"
  by (simp add: clearTimeout_def Let_def )

lemma onResponse_updStream [simp]: "onResponse (updStream k f s) = onResponse s"
  by (simp add: updStream_def Let_def )

lemma onResponse_updAttempt [simp]: "onResponse (updAttempt a f s) = onResponse s"
  by (simp add: updAttempt_def Let_def )

lemma onResponse_resolveAttempt [simp]: "onResponse (resolveAttempt a s) = onResponse s"
  by (simp add: resolveAttempt_def Let_def )

lemma onResponse_rejectAttempt [simp]: "onResponse (rejectAttempt a e s) = onResponse s"
  by (simp add: rejectAttempt_def Let_def )

lemma onResponse_connectTimerFires [simp]: "onResponse (connectTimerFires a s) = onResponse s"
  by (simp add: connectTimerFires_def Let_def )

lemma onResponse_socket_open [simp]: "onResponse (socket_open a sock s) = onResponse s"
  by (simp add: socket_open_def Let_def )

lemma onResponse_socket_error [simp]: "onResponse (socket_error a msg s) = onResponse s"
  by (simp add: socket_error_def Let_def )

lemma onResponse_errorHandler [simp]: "onResponse (errorHandler k e s) = onResponse s"
  by (simp add: errorHandler_def Let_def )

lemma onResponse_handler [simp]: "onResponse (handler k r s) = onResponse s"
  by (simp add: handler_def Let_def )

lemma onResponse_rejectWaiter [simp]: "onResponse (rejectWaiter w e s) = onResponse s"
  by (simp add: rejectWaiter_def Let_def split: RejectFn.splits)

lemma onResponse_rejectAll [simp]: "onResponse (rejectAll es s) = onResponse s"
  by (induction es s rule: rejectAll.induct) (simp_all add: Let_def split: option.splits)

lemma onResponse_close [simp]: "onResponse (close s) = onResponse s"
  by (simp add: close_def Let_def split: option.splits)

lemma onResponse_onClose [simp]: "onResponse (onClose s) = onResponse s"
  by (simp add: onClose_def Let_def )

lemma onResponse_send [simp]: "onResponse (snd (send req tmo s)) = onResponse s"
  by (simp add: send_def Let_def split: option.splits)

lemma onResponse_timerFires [simp]: "onResponse (timerFires t s) = onResponse s"
  by (simp add: timerFires_def Let_def split: option.splits)

lemma onResponse_onResponse_method [simp]: "onResponse (onResponse_method r s) = onResponse s"
  by (simp add: onResponse_method_def Let_def split: option.splits ResolveFn.splits)

lemma onResponse_dispatch [simp]: "onResponse (dispatch h r s) = onResponse s"
  by (induction h) simp_all

lemma onResponse_this_onResponse [simp]: "onResponse (this_onResponse r s) = onResponse s"
  by (simp add: this_onResponse_def Let_def )

lemma onResponse_stream [simp]: "onResponse (snd (stream req s)) = onResponse s"
  by (simp add: stream_def Let_def )

lemma onResponse_deliver [simp]: "onResponse (deliver k out s) = onResponse s"
  by (simp add: deliver_def Let_def )

lemma onResponse_onData_loop [simp]: "onResponse (snd (onData_loop parse b s)) = onResponse s"
proof (induction parse b s rule: onData_loop.induct)
  case (1 parse buffer s)
  show ?case
    by (subst onData_loop.simps) (simp add: 1 Let_def split: option.splits)
qed

lemma onResponse_onData [simp]: "onResponse (onData parse sock d s) = onResponse s"
  by (simp add: onData_def Let_def )

lemma onResponse_connect [simp]: "onResponse (snd (connect options s)) = onResponse s"
  by (simp add: connect_def Let_def )

lemma onResponse_generateId [simp]: "onResponse (snd (generateId s)) = onResponse s"
  by (simp add: generateId_def Let_def )

lemma writeThrows_settle [simp]: "writeThrows (settle p v s) = writeThrows s"
  by (simp add: settle_def Let_def )

lemma writeThrows_clearTimeout [simp]: "writeThrows (clearTimeout t s) = writeThrows s"
  by (simp add: clearTimeout_def Let_def )

lemma writeThrows_updStream [simp]: "writeThrows (updStream k f s) = writeThrows s"
  by (simp add: updStream_def Let_def )

lemma writeThrows_updAttempt [simp]: "writeThrows (updAttempt a f s) = writeThrows s"
  by (simp add: updAttempt_def Let_def )

lemma writeThrows_resolveAttempt [simp]: "writeThrows (resolveAttempt a s) = writeThrows s"
  by (simp add: resolveAttempt_def Let_def )

lemma writeThrows_rejectAttempt [simp]: "writeThrows (rejectAttempt a e s) = writeThrows s"
  by (simp add: rejectAttempt_def Let_def )

lemma writeThrows_connectTimerFires [simp]: "writeThrows (connectTimerFires a s) = writeThrows s"
  by (simp add: connectTimerFires_def Let_def )

lemma writeThrows_socket_open [simp]: "writeThrows (socket_open a sock s) = writeThrows s"
  by (simp add: socket_open_def Let_def )

lemma writeThrows_socket_error [simp]: "writeThrows (socket_error a msg s) = writeThrows s"
  by (simp add: socket_error_def Let_def )

lemma writeThrows_errorHandler [simp]: "writeThrows (errorHandler k e s) = writeThrows s"
  by (simp add: errorHandler_def Let_def )

lemma writeThrows_handler [simp]: "writeThrows (handler k r s) = writeThrows s"
  by (simp add: handler_def Let_def )

lemma writeThrows_rejectWaiter [simp]: "writeThrows (rejectWaiter w e s) = writeThrows s"
  by (simp add: rejectWaiter_def Let_def split: RejectFn.splits)

lemma writeThrows_rejectAll [simp]: "writeThrows (rejectAll es s) = writeThrows s"
  by (induction es s rule: rejectAll.induct) (simp_all add: Let_def split: option.splits)

lemma writeThrows_close [simp]: "writeThrows (close s) = writeThrows s"
  by (simp add: close_def Let_def split: option.splits)

lemma writeThrows_onClose [simp]: "writeThrows (onClose s) = writeThrows s"
  by (simp add: onClose_def Let_def )

lemma writeThrows_send [simp]: "writeThrows (snd (send req tmo s)) = writeThrows s"
  by (simp add: send_def Let_def split: option.splits)

lemma writeThrows_timerFires [simp]: "writeThrows (timerFires t s) = writeThrows s"
  by (simp add: timerFires_def Let_def split: option.splits)

lemma writeThrows_onResponse_method [simp]: "writeThrows (onResponse_method r s) = writeThrows s"
  by (simp add: onResponse_method_def Let_def split: option.splits ResolveFn.splits)

lemma writeThrows_dispatch [simp]: "writeThrows (dispatch h r s) = writeThrows s"
  by (induction h) simp_all

lemma writeThrows_this_onResponse [simp]: "writeThrows (this_onResponse r s) = writeThrows s"
  by (simp add: this_onResponse_def Let_def )

lemma writeThrows_stream [simp]: "writeThrows (snd (stream req s)) = writeThrows s"
  by (simp add: stream_def Let_def )

lemma writeThrows_deliver [simp]: "writeThrows (deliver k out s) = writeThrows s"
  by (simp add: deliver_def Let_def )

lemma writeThrows_finally_f [simp]: "writeThrows (finally' k s) = writeThrows s"
  by (simp add: finally'_def Let_def )

lemma writeThrows_finish [simp]: "writeThrows (finish k out s) = writeThrows s"
  by (simp add: finish_def Let_def )

lemma writeThrows_afterLoop [simp]: "writeThrows (afterLoop k s) = writeThrows s"
  by (simp add: afterLoop_def Let_def split: option.splits)

lemma writeThrows_loop [simp]: "writeThrows (loop k s) = writeThrows s"
  by (simp add: loop_def Let_def split: list.splits)

lemma writeThrows_start [simp]: "writeThrows (start k s) = writeThrows s"
  by (simp add: start_def Let_def split: option.splits)

lemma writeThrows_generator_next [simp]: "writeThrows (generator_next k s) = writeThrows s"
  by (simp add: generator_next_def Let_def split: GenState.splits)

lemma writeThrows_resume [simp]: "writeThrows (resume k s) = writeThrows s"
  by (simp add: resume_def Let_def split: GenState.splits IterResult.splits)

lemma writeThrows_runAll [simp]: "writeThrows (runAll ks s) = writeThrows s"
  by (induction ks arbitrary: s) simp_all

lemma writeThrows_runMicrotasks [simp]: "writeThrows (runMicrotasks s) = writeThrows s"
  by (simp add: runMicrotasks_def Let_def )

lemma writeThrows_onData_loop [simp]: "writeThrows (snd (onData_loop parse b s)) = writeThrows s"
proof (induction parse b s rule: onData_loop.induct)
  case (1 parse buffer s)
  show ?case
    by (subst onData_loop.simps) (simp add: 1 Let_def split: option.splits)
qed

lemma writeThrows_onData [simp]: "writeThrows (onData parse sock d s) = writeThrows s"
  by (simp add: onData_def Let_def )

lemma writeThrows_socket_data [simp]: "writeThrows (socket_data parse sock d s) = writeThrows s"
  by (simp add: socket_data_def Let_def )

lemma writeThrows_socket_close [simp]: "writeThrows (socket_close s) = writeThrows s"
  by (simp add: socket_close_def Let_def )

lemma writeThrows_close_call [simp]: "writeThrows (close_call s) = writeThrows s"
  by (simp add: close_call_def Let_def )

lemma writeThrows_connect [simp]: "writeThrows (snd (connect options s)) = writeThrows s"
  by (simp add: connect_def Let_def )

lemma writeThrows_generateId [simp]: "writeThrows (snd (generateId s)) = writeThrows s"
  by (simp add: generateId_def Let_def )

lemma nextStream_settle [simp]: "nextStream (settle p v s) = nextStream s"
  by (simp add: settle_def Let_def )

lemma nextStream_clearTimeout [simp]: "nextStream (clearTimeout t s) = nextStream s"
  by (simp add: clearTimeout_def Let_def )

lemma nextStream_updStream [simp]: "nextStream (updStream k f s) = nextStream s"
  by (simp add: updStream_def Let_def )

lemma nextStream_updAttempt [simp]: "nextStream (updAttempt a f s) = nextStream s"
  by (simp add: updAttempt_def Let_def )

lemma nextStream_resolveAttempt [simp]: "nextStream (resolveAttempt a s) = nextStream s"
  by (simp add: resolveAttempt_def Let_def )

lemma nextStream_rejectAttempt [simp]: "nextStream (rejectAttempt a e s) = nextStream s"
  by (simp add: rejectAttempt_def Let_def )

lemma nextStream_connectTimerFires [simp]: "nextStream (connectTimerFires a s) = nextStream s"
  by (simp add: connectTimerFires_def Let_def )

lemma nextStream_socket_open [simp]: "nextStream (socket_open a sock s) = nextStream s"
  by (simp add: socket_open_def Let_def )

lemma nextStream_socket_error [simp]: "nextStream (socket_error a msg s) = nextStream s"
  by (simp add: socket_error_def Let_def )

lemma nextStream_errorHandler [simp]: "nextStream (errorHandler k e s) = nextStream s"
  by (simp add: errorHandler_def Let_def )

lemma nextStream_handler [simp]: "nextStream (handler k r s) = nextStream s"
  by (simp add: handler_def Let_def )

lemma nextStream_rejectWaiter [simp]: "nextStream (rejectWaiter w e s) = nextStream s"
  by (simp add: rejectWaiter_def Let_def split: RejectFn.splits)

lemma nextStream_rejectAll [simp]: "nextStream (rejectAll es s) = nextStream s"
  by (induction es s rule: rejectAll.induct) (simp_all add: Let_def split: option.splits)

lemma nextStream_close [simp]: "nextStream (close s) = nextStream s"
  by (simp add: close_def Let_def split: option.splits)

lemma nextStream_onClose [simp]: "nextStream (onClose s) = nextStream s"
  by (simp add: onClose_def Let_def )

lemma nextStream_send [simp]: "nextStream (snd (send req tmo s)) = nextStream s"
  by (simp add: send_def Let_def split: option.splits)

lemma nextStream_timerFires [simp]: "nextStream (timerFires t s) = nextStream s"
  by (simp add: timerFires_def Let_def split: option.splits)

lemma nextStream_onResponse_method [simp]: "nextStream (onResponse_method r s) = nextStream s"
  by (simp add: onResponse_method_def Let_def split: option.splits ResolveFn.splits)

lemma nextStream_dispatch [simp]: "nextStream (dispatch h r s) = nextStream s"
  by (induction h) simp_all

lemma nextStream_this_onResponse [simp]: "nextStream (this_onResponse r s) = nextStream s"
  by (simp add: this_onResponse_def Let_def )

lemma nextStream_deliver [simp]: "nextStream (deliver k out s) = nextStream s"
  by (simp add: deliver_def Let_def )

lemma nextStream_finally_f [simp]: "nextStream (finally' k s) = nextStream s"
  by (simp add: finally'_def Let_def )

lemma nextStream_finish [simp]: "nextStream (finish k out s) = nextStream s"
  by (simp add: finish_def Let_def )

lemma nextStream_afterLoop [simp]: "nextStream (afterLoop k s) = nextStream s"
  by (simp add: afterLoop_def Let_def split: option.splits)

lemma nextStream_loop [simp]: "nextStream (loop k s) = nextStream s"
  by (simp add: loop_def Let_def split: list.splits)

lemma nextStream_start [simp]: "nextStream (start k s) = nextStream s"
  by (simp add: start_def Let_def split: option.splits)

lemma nextStream_generator_next [simp]: "nextStream (generator_next k s) = nextStream s"
  by (simp add: generator_next_def Let_def split: GenState.splits)

lemma nextStream_resume [simp]: "nextStream (resume k s) = nextStream s"
  by (simp add: resume_def Let_def split: GenState.splits IterResult.splits)

lemma nextStream_runAll [simp]: "nextStream (runAll ks s) = nextStream s"
  by (induction ks arbitrary: s) simp_all

lemma nextStream_runMicrotasks [simp]: "nextStream (runMicrotasks s) = nextStream s"
  by (simp add: runMicrotasks_def Let_def )

lemma nextStream_onData_loop [simp]: "nextStream (snd (onData_loop parse b s)) = nextStream s"
proof (induction parse b s rule: onData_loop.induct)
  case (1 parse buffer s)
  show ?case
    by (subst onData_loop.simps) (simp add: 1 Let_def split: option.splits)
qed

lemma nextStream_onData [simp]: "nextStream (onData parse sock d s) = nextStream s"
  by (simp add: onData_def Let_def )

lemma nextStream_socket_data [simp]: "nextStream (socket_data parse sock d s) = nextStream s"
  by (simp add: socket_data_def Let_def )

lemma nextStream_socket_close [simp]: "nextStream (socket_close s) = nextStream s"
  by (simp add: socket_close_def Let_def )

lemma nextStream_close_call [simp]: "nextStream (close_call s) = nextStream s"
  by (simp add: close_call_def Let_def )

lemma nextStream_connect [simp]: "nextStream (snd (connect options s)) = nextStream s"
  by (simp add: connect_def Let_def )

lemma nextStream_generateId [simp]: "nextStream (snd (generateId s)) = nextStream s"
  by (simp add: generateId_def Let_def )

lemma promises_clearTimeout [simp]: "promises (clearTimeout t s) = promises s"
  by (simp add: clearTimeout_def Let_def )

lemma promises_updStream [simp]: "promises (updStream k f s) = promises s"
  by (simp add: updStream_def Let_def )

lemma promises_updAttempt [simp]: "promises (updAttempt a f s) = promises s"
  by (simp add: updAttempt_def Let_def )

lemma promises_resolveAttempt [simp]: "promises (resolveAttempt a s) = promises s"
  by (simp add: resolveAttempt_def Let_def )

lemma promises_rejectAttempt [simp]: "promises (rejectAttempt a e s) = promises s"
  by (simp add: rejectAttempt_def Let_def )

lemma promises_connectTimerFires [simp]: "promises (connectTimerFires a s) = promises s"
  by (simp add: connectTimerFires_def Let_def )

lemma promises_socket_open [simp]: "promises (socket_open a sock s) = promises s"
  by (simp add: socket_open_def Let_def )

lemma promises_socket_error [simp]: "promises (socket_error a msg s) = promises s"
  by (simp add: socket_error_def Let_def )

lemma promises_errorHandler [simp]: "promises (errorHandler k e s) = promises s"
  by (simp add: errorHandler_def Let_def )

lemma promises_handler [simp]: "promises (handler k r s) = promises s"
  by (simp add: handler_def Let_def )

lemma promises_stream [simp]: "promises (snd (stream req s)) = promises s"
  by (simp add: stream_def Let_def )

lemma promises_deliver [simp]: "promises (deliver k out s) = promises s"
  by (simp add: deliver_def Let_def )

lemma promises_finally_f [simp]: "promises (finally' k s) = promises s"
  by (simp add: finally'_def Let_def )

lemma promises_finish [simp]: "promises (finish k out s) = promises s"
  by (simp add: finish_def Let_def )

lemma promises_afterLoop [simp]: "promises (afterLoop k s) = promises s"
  by (simp add: afterLoop_def Let_def split: option.splits)

lemma promises_loop [simp]: "promises (loop k s) = promises s"
  by (simp add: loop_def Let_def split: list.splits)

lemma promises_start [simp]: "promises (start k s) = promises s"
  by (simp add: start_def Let_def split: option.splits)

lemma promises_generator_next [simp]: "promises (generator_next k s) = promises s"
  by (simp add: generator_next_def Let_def split: GenState.splits)

lemma promises_resume [simp]: "promises (resume k s) = promises s"
  by (simp add: resume_def Let_def split: GenState.splits IterResult.splits)

lemma promises_runAll [simp]: "promises (runAll ks s) = promises s"
  by (induction ks arbitrary: s) simp_all

lemma promises_runMicrotasks [simp]: "promises (runMicrotasks s) = promises s"
  by (simp add: runMicrotasks_def Let_def )

lemma promises_connect [simp]: "promises (snd (connect options s)) = promises s"
  by (simp add: connect_def Let_def )

lemma promises_generateId [simp]: "promises (snd (generateId s)) = promises s"
  by (simp add: generateId_def Let_def )

lemma timers_settle [simp]: "timers (settle p v s) = timers s"
  by (simp add: settle_def Let_def )

lemma timers_updStream [simp]: "timers (updStream k f s) = timers s"
  by (simp add: updStream_def Let_def )

lemma timers_updAttempt [simp]: "timers (updAttempt a f s) = timers s"
  by (simp add: updAttempt_def Let_def )

lemma timers_resolveAttempt [simp]: "timers (resolveAttempt a s) = timers s"
  by (simp add: resolveAttempt_def Let_def )

lemma timers_rejectAttempt [simp]: "timers (rejectAttempt a e s) = timers s"
  by (simp add: rejectAttempt_def Let_def )

lemma timers_connectTimerFires [simp]: "timers (connectTimerFires a s) = timers s"
  by (simp add: connectTimerFires_def Let_def )

lemma timers_socket_open [simp]: "timers (socket_open a sock s) = timers s"
  by (simp add: socket_open_def Let_def )

lemma timers_socket_error [simp]: "timers (socket_error a msg s) = timers s"
  by (simp add: socket_error_def Let_def )

lemma timers_errorHandler [simp]: "timers (errorHandler k e s) = timers s"
  by (simp add: errorHandler_def Let_def )

lemma timers_handler [simp]: "timers (handler k r s) = timers s"
  by (simp add: handler_def Let_def )

lemma timers_rejectWaiter [simp]: "timers (rejectWaiter w e s) = timers s"
  by (simp add: rejectWaiter_def Let_def split: RejectFn.splits)

lemma timers_stream [simp]: "timers (snd (stream req s)) = timers s"
  by (simp add: stream_def Let_def )

lemma timers_deliver [simp]: "timers (deliver k out s) = timers s"
  by (simp add: deliver_def Let_def )

lemma timers_finally_f [simp]: "timers (finally' k s) = timers s"
  by (simp add: finally'_def Let_def )

lemma timers_finish [simp]: "timers (finish k out s) = timers s"
  by (simp add: finish_def Let_def )

lemma timers_afterLoop [simp]: "timers (afterLoop k s) = timers s"
  by (simp add: afterLoop_def Let_def split: option.splits)

lemma timers_loop [simp]: "timers (loop k s) = timers s"
  by (simp add: loop_def Let_def split: list.splits)

lemma timers_start [simp]: "timers (start k s) = timers s"
  by (simp add: start_def Let_def split: option.splits)

lemma timers_generator_next [simp]: "timers (generator_next k s) = timers s"
  by (simp add: generator_next_def Let_def split: GenState.splits)

lemma timers_resume [simp]: "timers (resume k s) = timers s"
  by (simp add: resume_def Let_def split: GenState.splits IterResult.splits)

lemma timers_runAll [simp]: "timers (runAll ks s) = timers s"
  by (induction ks arbitrary: s) simp_all

lemma timers_runMicrotasks [simp]: "timers (runMicrotasks s) = timers s"
  by (simp add: runMicrotasks_def Let_def )

lemma timers_connect [simp]: "timers (snd (connect options s)) = timers s"
  by (simp add: connect_def Let_def )

lemma timers_generateId [simp]: "timers (snd (generateId s)) = timers s"
  by (simp add: generateId_def Let_def )

lemma state_settle [simp]: "state (settle p v s) = state s"
  by (simp add: settle_def Let_def )

lemma state_clearTimeout [simp]: "state (clearTimeout t s) = state s"
  by (simp add: clearTimeout_def Let_def )

lemma state_updStream [simp]: "state (updStream k f s) = state s"
  by (simp add: updStream_def Let_def )

lemma state_updAttempt [simp]: "state (updAttempt a f s) = state s"
  by (simp add: updAttempt_def Let_def )

lemma state_errorHandler [simp]: "state (errorHandler k e s) = state s"
  by (simp add: errorHandler_def Let_def )

lemma state_handler [simp]: "state (handler k r s) = state s"
  by (simp add: handler_def Let_def )

lemma state_rejectWaiter [simp]: "state (rejectWaiter w e s) = state s"
  by (simp add: rejectWaiter_def Let_def split: RejectFn.splits)

lemma state_rejectAll [simp]: "state (rejectAll es s) = state s"
  by (induction es s rule: rejectAll.induct) (simp_all add: Let_def split: option.splits)

lemma state_send [simp]: "state (snd (send req tmo s)) = state s"
  by (simp add: send_def Let_def split: option.splits)

lemma state_timerFires [simp]: "state (timerFires t s) = state s"
  by (simp add: timerFires_def Let_def split: option.splits)

lemma state_onResponse_method [simp]: "state (onResponse_method r s) = state s"
  by (simp add: onResponse_method_def Let_def split: option.splits ResolveFn.splits)

lemma state_dispatch [simp]: "state (dispatch h r s) = state s"
  by (induction h) simp_all

lemma state_this_onResponse [simp]: "state (this_onResponse r s) = state s"
  by (simp add: this_onResponse_def Let_def )

lemma state_stream [simp]: "state (snd (stream req s)) = state s"
  by (simp add: stream_def Let_def )

lemma state_deliver [simp]: "state (deliver k out s) = state s"
  by (simp add: deliver_def Let_def )

lemma state_finally_f [simp]: "state (finally' k s) = state s"
  by (simp add: finally'_def Let_def )

lemma state_finish [simp]: "state (finish k out s) = state s"
  by (simp add: finish_def Let_def )

lemma state_afterLoop [simp]: "state (afterLoop k s) = state s"
  by (simp add: afterLoop_def Let_def split: option.splits)

lemma state_loop [simp]: "state (loop k s) = state s"
  by (simp add: loop_def Let_def split: list.splits)

lemma state_start [simp]: "state (start k s) = state s"
  by (simp add: start_def Let_def split: option.splits)

lemma state_generator_next [simp]: "state (generator_next k s) = state s"
  by (simp add: generator_next_def Let_def split: GenState.splits)

lemma state_resume [simp]: "state (resume k s) = state s"
  by (simp add: resume_def Let_def split: GenState.splits IterResult.splits)

lemma state_runAll [simp]: "state (runAll ks s) = state s"
  by (induction ks arbitrary: s) simp_all

lemma state_runMicrotasks [simp]: "state (runMicrotasks s) = state s"
  by (simp add: runMicrotasks_def Let_def )

lemma state_onData_loop [simp]: "state (snd (onData_loop parse b s)) = state s"
proof (induction parse b s rule: onData_loop.induct)
  case (1 parse buffer s)
  show ?case
    by (subst onData_loop.simps) (simp add: 1 Let_def split: option.splits)
qed

lemma state_onData [simp]: "state (onData parse sock d s) = state s"
  by (simp add: onData_def Let_def )

lemma state_socket_data [simp]: "state (socket_data parse sock d s) = state s"
  by (simp add: socket_data_def Let_def )

lemma state_generateId [simp]: "state (snd (generateId s)) = state s"
  by (simp add: generateId_def Let_def )

lemma socket_settle [simp]: "socket (settle p v s) = socket s"
  by (simp add: settle_def Let_def )

lemma socket_clearTimeout [simp]: "socket (clearTimeout t s) = socket s"
  by (simp add: clearTimeout_def Let_def )

lemma socket_updStream [simp]: "socket (updStream k f s) = socket s"
  by (simp add: updStream_def Let_def )

lemma socket_updAttempt [simp]: "socket (updAttempt a f s) = socket s"
  by (simp add: updAttempt_def Let_def )

lemma socket_resolveAttempt [simp]: "socket (resolveAttempt a s) = socket s"
  by (simp add: resolveAttempt_def Let_def )

lemma socket_rejectAttempt [simp]: "socket (rejectAttempt a e s) = socket s"
  by (simp add: rejectAttempt_def Let_def )

lemma socket_connectTimerFires [simp]: "socket (connectTimerFires a s) = socket s"
  by (simp add: connectTimerFires_def Let_def )

lemma socket_socket_error [simp]: "socket (socket_error a msg s) = socket s"
  by (simp add: socket_error_def Let_def )

lemma socket_errorHandler [simp]: "socket (errorHandler k e s) = socket s"
  by (simp add: errorHandler_def Let_def )

lemma socket_handler [simp]: "socket (handler k r s) = socket s"
  by (simp add: handler_def Let_def )

lemma socket_rejectWaiter [simp]: "socket (rejectWaiter w e s) = socket s"
  by (simp add: rejectWaiter_def Let_def split: RejectFn.splits)

lemma socket_rejectAll [simp]: "socket (rejectAll es s) = socket s"
  by (induction es s rule: rejectAll.induct) (simp_all add: Let_def split: option.splits)

lemma socket_send [simp]: "socket (snd (send req tmo s)) = socket s"
  by (simp add: send_def Let_def split: option.splits)

lemma socket_timerFires [simp]: "socket (timerFires t s) = socket s"
  by (simp add: timerFires_def Let_def split: option.splits)

lemma socket_onResponse_method [simp]: "socket (onResponse_method r s) = socket s"
  by (simp add: onResponse_method_def Let_def split: option.splits ResolveFn.splits)

lemma socket_dispatch [simp]: "socket (dispatch h r s) = socket s"
  by (induction h) simp_all

lemma socket_this_onResponse [simp]: "socket (this_onResponse r s) = socket s"
  by (simp add: this_onResponse_def Let_def )

lemma socket_stream [simp]: "socket (snd (stream req s)) = socket s"
  by (simp add: stream_def Let_def )

lemma socket_deliver [simp]: "socket (deliver k out s) = socket s"
  by (simp add: deliver_def Let_def )

lemma socket_finally_f [simp]: "socket (finally' k s) = socket s"
  by (simp add: finally'_def Let_def )

lemma socket_finish [simp]: "socket (finish k out s) = socket s"
  by (simp add: finish_def Let_def )

lemma socket_afterLoop [simp]: "socket (afterLoop k s) = socket s"
  by (simp add: afterLoop_def Let_def split: option.splits)

lemma socket_loop [simp]: "socket (loop k s) = socket s"
  by (simp add: loop_def Let_def split: list.splits)

lemma socket_start [simp]: "socket (start k s) = socket s"
  by (simp add: start_def Let_def split: option.splits)

lemma socket_generator_next [simp]: "socket (generator_next k s) = socket s"
  by (simp add: generator_next_def Let_def split: GenState.splits)

lemma socket_resume [simp]: "socket (resume k s) = socket s"
  by (simp add: resume_def Let_def split: GenState.splits IterResult.splits)

lemma socket_runAll [simp]: "socket (runAll ks s) = socket s"
  by (induction ks arbitrary: s) simp_all

lemma socket_runMicrotasks [simp]: "socket (runMicrotasks s) = socket s"
  by (simp add: runMicrotasks_def Let_def )

lemma socket_onData_loop [simp]: "socket (snd (onData_loop parse b s)) = socket s"
proof (induction parse b s rule: onData_loop.induct)
  case (1 parse buffer s)
  show ?case
    by (subst onData_loop.simps) (simp add: 1 Let_def split: option.splits)
qed

lemma socket_onData [simp]: "socket (onData parse sock d s) = socket s"
  by (simp add: onData_def Let_def )

lemma socket_socket_data [simp]: "socket (socket_data parse sock d s) = socket s"
  by (simp add: socket_data_def Let_def )

lemma socket_connect [simp]: "socket (snd (connect options s)) = socket s"
  by (simp add: connect_def Let_def )

lemma socket_generateId [simp]: "socket (snd (generateId s)) = socket s"
  by (simp add: generateId_def Let_def )

lemma ended_settle [simp]: "ended (settle p v s) = ended s"
  by (simp add: settle_def Let_def )

lemma ended_clearTimeout [simp]: "ended (clearTimeout t s) = ended s"
  by (simp add: clearTimeout_def Let_def )

lemma ended_updStream [simp]: "ended (updStream k f s) = ended s"
  by (simp add: updStream_def Let_def )

lemma ended_updAttempt [simp]: "ended (updAttempt a f s) = ended s"
  by (simp add: updAttempt_def Let_def )

lemma ended_resolveAttempt [simp]: "ended (resolveAttempt a s) = ended s"
  by (simp add: resolveAttempt_def Let_def )

lemma ended_rejectAttempt [simp]: "ended (rejectAttempt a e s) = ended s"
  by (simp add: rejectAttempt_def Let_def )

lemma ended_connectTimerFires [simp]: "ended (connectTimerFires a s) = ended s"
  by (simp add: connectTimerFires_def Let_def )

lemma ended_socket_open [simp]: "ended (socket_open a sock s) = ended s"
  by (simp add: socket_open_def Let_def )

lemma ended_socket_error [simp]: "ended (socket_error a msg s) = ended s"
  by (simp add: socket_error_def Let_def )

lemma ended_errorHandler [simp]: "ended (errorHandler k e s) = ended s"
  by (simp add: errorHandler_def Let_def )

lemma ended_handler [simp]: "ended (handler k r s) = ended s"
  by (simp add: handler_def Let_def )

lemma ended_rejectWaiter [simp]: "ended (rejectWaiter w e s) = ended s"
  by (simp add: rejectWaiter_def Let_def split: RejectFn.splits)

lemma ended_rejectAll [simp]: "ended (rejectAll es s) = ended s"
  by (induction es s rule: rejectAll.induct) (simp_all add: Let_def split: option.splits)

lemma ended_onClose [simp]: "ended (onClose s) = ended s"
  by (simp add: onClose_def Let_def )

lemma ended_send [simp]: "ended (snd (send req tmo s)) = ended s"
  by (simp add: send_def Let_def split: option.splits)

lemma ended_timerFires [simp]: "ended (timerFires t s) = ended s"
  by (simp add: timerFires_def Let_def split: option.splits)

lemma ended_onResponse_method [simp]: "ended (onResponse_method r s) = ended s"
  by (simp add: onResponse_method_def Let_def split: option.splits ResolveFn.splits)

lemma ended_dispatch [simp]: "ended (dispatch h r s) = ended s"
  by (induction h) simp_all

lemma ended_this_onResponse [simp]: "ended (this_onResponse r s) = ended s"
  by (simp add: this_onResponse_def Let_def )

lemma ended_stream [simp]: "ended (snd (stream req s)) = ended s"
  by (simp add: stream_def Let_def )

lemma ended_deliver [simp]: "ended (deliver k out s) = ended s"
  by (simp add: deliver_def Let_def )

lemma ended_finally_f [simp]: "ended (finally' k s) = ended s"
  by (simp add: finally'_def Let_def )

lemma ended_finish [simp]: "ended (finish k out s) = ended s"
  by (simp add: finish_def Let_def )

lemma ended_afterLoop [simp]: "ended (afterLoop k s) = ended s"
  by (simp add: afterLoop_def Let_def split: option.splits)

lemma ended_loop [simp]: "ended (loop k s) = ended s"
  by (simp add: loop_def Let_def split: list.splits)

lemma ended_start [simp]: "ended (start k s) = ended s"
  by (simp add: start_def Let_def split: option.splits)

lemma ended_generator_next [simp]: "ended (generator_next k s) = ended s"
  by (simp add: generator_next_def Let_def split: GenState.splits)

lemma ended_resume [simp]: "ended (resume k s) = ended s"
  by (simp add: resume_def Let_def split: GenState.splits IterResult.splits)

lemma ended_runAll [simp]: "ended (runAll ks s) = ended s"
  by (induction ks arbitrary: s) simp_all

lemma ended_runMicrotasks [simp]: "ended (runMicrotasks s) = ended s"
  by (simp add: runMicrotasks_def Let_def )

lemma ended_onData_loop [simp]: "ended (snd (onData_loop parse b s)) = ended s"
proof (induction parse b s rule: onData_loop.induct)
  case (1 parse buffer s)
  show ?case
    by (subst onData_loop.simps) (simp add: 1 Let_def split: option.splits)
qed

lemma ended_onData [simp]: "ended (onData parse sock d s) = ended s"
  by (simp add: onData_def Let_def )

lemma ended_socket_data [simp]: "ended (socket_data parse sock d s) = ended s"
  by (simp add: socket_data_def Let_def )

lemma ended_socket_close [simp]: "ended (socket_close s) = ended s"
  by (simp add: socket_close_def Let_def )

lemma ended_connect [simp]: "ended (snd (connect options s)) = ended s"
  by (simp add: connect_def Let_def )

lemma ended_generateId [simp]: "ended (snd (generateId s)) = ended s"
  by (simp add: generateId_def Let_def )

lemma streams_settle [simp]: "streams (settle p v s) = streams s"
  by (simp add: settle_def Let_def )

lemma streams_clearTimeout [simp]: "streams (clearTimeout t s) = streams s"
  by (simp add: clearTimeout_def Let_def )

lemma streams_updAttempt [simp]: "streams (updAttempt a f s) = streams s"
  by (simp add: updAttempt_def Let_def )

lemma streams_resolveAttempt [simp]: "streams (resolveAttempt a s) = streams s"
  by (simp add: resolveAttempt_def Let_def )

lemma streams_rejectAttempt [simp]: "streams (rejectAttempt a e s) = streams s"
  by (simp add: rejectAttempt_def Let_def )

lemma streams_connectTimerFires [simp]: "streams (connectTimerFires a s) = streams s"
  by (simp add: connectTimerFires_def Let_def )

lemma streams_socket_open [simp]: "streams (socket_open a sock s) = streams s"
  by (simp add: socket_open_def Let_def )

lemma streams_socket_error [simp]: "streams (socket_error a msg s) = streams s"
  by (simp add: socket_error_def Let_def )

lemma streams_send [simp]: "streams (snd (send req tmo s)) = streams s"
  by (simp add: send_def Let_def split: option.splits)

lemma streams_timerFires [simp]: "streams (timerFires t s) = streams s"
  by (simp add: timerFires_def Let_def split: option.splits)

lemma streams_onResponse_method [simp]: "streams (onResponse_method r s) = streams s"
  by (simp add: onResponse_method_def Let_def split: option.splits ResolveFn.splits)

lemma streams_finally_f [simp]: "streams (finally' k s) = streams s"
  by (simp add: finally'_def Let_def )

lemma streams_connect [simp]: "streams (snd (connect options s)) = streams s"
  by (simp add: connect_def Let_def )

lemma streams_generateId [simp]: "streams (snd (generateId s)) = streams s"
  by (simp add: generateId_def Let_def )

lemma microtasks_settle [simp]: "microtasks (settle p v s) = microtasks s"
  by (simp add: settle_def Let_def )

lemma microtasks_clearTimeout [simp]: "microtasks (clearTimeout t s) = microtasks s"
  by (simp add: clearTimeout_def Let_def )

lemma microtasks_updStream [simp]: "microtasks (updStream k f s) = microtasks s"
  by (simp add: updStream_def Let_def )

lemma microtasks_updAttempt [simp]: "microtasks (updAttempt a f s) = microtasks s"
  by (simp add: updAttempt_def Let_def )

lemma microtasks_resolveAttempt [simp]: "microtasks (resolveAttempt a s) = microtasks s"
  by (simp add: resolveAttempt_def Let_def )

lemma microtasks_rejectAttempt [simp]: "microtasks (rejectAttempt a e s) = microtasks s"
  by (simp add: rejectAttempt_def Let_def )

lemma microtasks_connectTimerFires [simp]: "microtasks (connectTimerFires a s) = microtasks s"
  by (simp add: connectTimerFires_def Let_def )

lemma microtasks_socket_open [simp]: "microtasks (socket_open a sock s) = microtasks s"
  by (simp add: socket_open_def Let_def )

lemma microtasks_socket_error [simp]: "microtasks (socket_error a msg s) = microtasks s"
  by (simp add: socket_error_def Let_def )

lemma microtasks_send [simp]: "microtasks (snd (send req tmo s)) = microtasks s"
  by (simp add: send_def Let_def split: option.splits)

lemma microtasks_timerFires [simp]: "microtasks (timerFires t s) = microtasks s"
  by (simp add: timerFires_def Let_def split: option.splits)

lemma microtasks_onResponse_method [simp]: "microtasks (onResponse_method r s) = microtasks s"
  by (simp add: onResponse_method_def Let_def split: option.splits ResolveFn.splits)

lemma microtasks_stream [simp]: "microtasks (snd (stream req s)) = microtasks s"
  by (simp add: stream_def Let_def )

lemma microtasks_deliver [simp]: "microtasks (deliver k out s) = microtasks s"
  by (simp add: deliver_def Let_def )

lemma microtasks_finally_f [simp]: "microtasks (finally' k s) = microtasks s"
  by (simp add: finally'_def Let_def )

lemma microtasks_finish [simp]: "microtasks (finish k out s) = microtasks s"
  by (simp add: finish_def Let_def )

lemma microtasks_afterLoop [simp]: "microtasks (afterLoop k s) = microtasks s"
  by (simp add: afterLoop_def Let_def split: option.splits)

lemma microtasks_loop [simp]: "microtasks (loop k s) = microtasks s"
  by (simp add: loop_def Let_def split: list.splits)

lemma microtasks_start [simp]: "microtasks (start k s) = microtasks s"
  by (simp add: start_def Let_def split: option.splits)

lemma microtasks_generator_next [simp]: "microtasks (generator_next k s) = microtasks s"
  by (simp add: generator_next_def Let_def split: GenState.splits)

lemma microtasks_resume [simp]: "microtasks (resume k s) = microtasks s"
  by (simp add: resume_def Let_def split: GenState.splits IterResult.splits)

lemma microtasks_runAll [simp]: "microtasks (runAll ks s) = microtasks s"
  by (induction ks arbitrary: s) simp_all

lemma microtasks_connect [simp]: "microtasks (snd (connect options s)) = microtasks s"
  by (simp add: connect_def Let_def )

lemma microtasks_generateId [simp]: "microtasks (snd (generateId s)) = microtasks s"
  by (simp add: generateId_def Let_def )

lemma written_settle [simp]: "written (settle p v s) = written s"
  by (simp add: settle_def Let_def )

lemma written_clearTimeout [simp]: "written (clearTimeout t s) = written s"
  by (simp add: clearTimeout_def Let_def )

lemma written_updStream [simp]: "written (updStream k f s) = written s"
  by (simp add: updStream_def Let_def )

lemma written_updAttempt [simp]: "written (updAttempt a f s) = written s"
  by (simp add: updAttempt_def Let_def )

lemma written_resolveAttempt [simp]: "written (resolveAttempt a s) = written s"
  by (simp add: resolveAttempt_def Let_def )

lemma written_rejectAttempt [simp]: "written (rejectAttempt a e s) = written s"
  by (simp add: rejectAttempt_def Let_def )

lemma written_connectTimerFires [simp]: "written (connectTimerFires a s) = written s"
  by (simp add: connectTimerFires_def Let_def )

lemma written_socket_open [simp]: "written (socket_open a sock s) = written s"
  by (simp add: socket_open_def Let_def )

lemma written_socket_error [simp]: "written (socket_error a msg s) = written s"
  by (simp add: socket_error_def Let_def )

lemma written_errorHandler [simp]: "written (errorHandler k e s) = written s"
  by (simp add: errorHandler_def Let_def )

lemma written_handler [simp]: "written (handler k r s) = written s"
  by (simp add: handler_def Let_def )

lemma written_rejectWaiter [simp]: "written (rejectWaiter w e s) = written s"
  by (simp add: rejectWaiter_def Let_def split: RejectFn.splits)

lemma written_rejectAll [simp]: "written (rejectAll es s) = written s"
  by (induction es s rule: rejectAll.induct) (simp_all add: Let_def split: option.splits)

lemma written_close [simp]: "written (close s) = written s"
  by (simp add: close_def Let_def split: option.splits)

lemma written_onClose [simp]: "written (onClose s) = written s"
  by (simp add: onClose_def Let_def )

lemma written_timerFires [simp]: "written (timerFires t s) = written s"
  by (simp add: timerFires_def Let_def split: option.splits)

lemma written_onResponse_method [simp]: "written (onResponse_method r s) = written s"
  by (simp add: onResponse_method_def Let_def split: option.splits ResolveFn.splits)

lemma written_dispatch [simp]: "written (dispatch h r s) = written s"
  by (induction h) simp_all

lemma written_this_onResponse [simp]: "written (this_onResponse r s) = written s"
  by (simp add: this_onResponse_def Let_def )

lemma written_stream [simp]: "written (snd (stream req s)) = written s"
  by (simp add: stream_def Let_def )

lemma written_deliver [simp]: "written (deliver k out s) = written s"
  by (simp add: deliver_def Let_def )

lemma written_finally_f [simp]: "written (finally' k s) = written s"
  by (simp add: finally'_def Let_def )

lemma written_finish [simp]: "written (finish k out s) = written s"
  by (simp add: finish_def Let_def )

lemma written_afterLoop [simp]: "written (afterLoop k s) = written s"
  by (simp add: afterLoop_def Let_def split: option.splits)

lemma written_loop [simp]: "written (loop k s) = written s"
  by (simp add: loop_def Let_def split: list.splits)

lemma written_resume [simp]: "written (resume k s) = written s"
  by (simp add: resume_def Let_def split: GenState.splits IterResult.splits)

lemma written_runAll [simp]: "written (runAll ks s) = written s"
  by (induction ks arbitrary: s) simp_all

lemma written_runMicrotasks [simp]: "written (runMicrotasks s) = written s"
  by (simp add: runMicrotasks_def Let_def )

lemma written_onData_loop [simp]: "written (snd (onData_loop parse b s)) = written s"
proof (induction parse b s rule: onData_loop.induct)
  case (1 parse buffer s)
  show ?case
    by (subst onData_loop.simps) (simp add: 1 Let_def split: option.splits)
qed

lemma written_onData [simp]: "written (onData parse sock d s) = written s"
  by (simp add: onData_def Let_def )

lemma written_socket_data [simp]: "written (socket_data parse sock d s) = written s"
  by (simp add: socket_data_def Let_def )

lemma written_socket_close [simp]: "written (socket_close s) = written s"
  by (simp add: socket_close_def Let_def )

lemma written_close_call [simp]: "written (close_call s) = written s"
  by (simp add: close_call_def Let_def )

lemma written_connect [simp]: "written (snd (connect options s)) = written s"
  by (simp add: connect_def Let_def )

lemma written_generateId [simp]: "written (snd (generateId s)) = written s"
  by (simp add: generateId_def Let_def )

lemma stringifyThrows_settle [simp]: "stringifyThrows (settle p v s) = stringifyThrows s"
  by (simp add: settle_def Let_def )

lemma stringifyThrows_clearTimeout [simp]: "stringifyThrows (clearTimeout t s) = stringifyThrows s"
  by (simp add: clearTimeout_def Let_def )

lemma stringifyThrows_updStream [simp]: "stringifyThrows (updStream k f s) = stringifyThrows s"
  by (simp add: updStream_def Let_def )

lemma stringifyThrows_updAttempt [simp]: "stringifyThrows (updAttempt a f s) = stringifyThrows s"
  by (simp add: updAttempt_def Let_def )

lemma stringifyThrows_resolveAttempt [simp]: "stringifyThrows (resolveAttempt a s) = stringifyThrows s"
  by (simp add: resolveAttempt_def Let_def )

lemma stringifyThrows_rejectAttempt [simp]: "stringifyThrows (rejectAttempt a e s) = stringifyThrows s"
  by (simp add: rejectAttempt_def Let_def )

lemma stringifyThrows_connectTimerFires [simp]: "stringifyThrows (connectTimerFires a s) = stringifyThrows s"
  by (simp add: connectTimerFires_def Let_def )

lemma stringifyThrows_socket_open [simp]: "stringifyThrows (socket_open a sock s) = stringifyThrows s"
  by (simp add: socket_open_def Let_def )

lemma stringifyThrows_socket_error [simp]: "stringifyThrows (socket_error a msg s) = stringifyThrows s"
  by (simp add: socket_error_def Let_def )

lemma stringifyThrows_errorHandler [simp]: "stringifyThrows (errorHandler k e s) = stringifyThrows s"
  by (simp add: errorHandler_def Let_def )

lemma stringifyThrows_handler [simp]: "stringifyThrows (handler k r s) = stringifyThrows s"
  by (simp add: handler_def Let_def )

lemma stringifyThrows_rejectWaiter [simp]: "stringifyThrows (rejectWaiter w e s) = stringifyThrows s"
  by (simp add: rejectWaiter_def Let_def split: RejectFn.splits)

lemma stringifyThrows_rejectAll [simp]: "stringifyThrows (rejectAll es s) = stringifyThrows s"
  by (induction es s rule: rejectAll.induct) (simp_all add: Let_def split: option.splits)

lemma stringifyThrows_close [simp]: "stringifyThrows (close s) = stringifyThrows s"
  by (simp add: close_def Let_def split: option.splits)

lemma stringifyThrows_onClose [simp]: "stringifyThrows (onClose s) = stringifyThrows s"
  by (simp add: onClose_def Let_def )

lemma stringifyThrows_send [simp]: "stringifyThrows (snd (send req tmo s)) = stringifyThrows s"
  by (simp add: send_def Let_def split: option.splits)

lemma stringifyThrows_timerFires [simp]: "stringifyThrows (timerFires t s) = stringifyThrows s"
  by (simp add: timerFires_def Let_def split: option.splits)

lemma stringifyThrows_onResponse_method [simp]: "stringifyThrows (onResponse_method r s) = stringifyThrows s"
  by (simp add: onResponse_method_def Let_def split: option.splits ResolveFn.splits)

lemma stringifyThrows_dispatch [simp]: "stringifyThrows (dispatch h r s) = stringifyThrows s"
  by (induction h) simp_all

lemma stringifyThrows_this_onResponse [simp]: "stringifyThrows (this_onResponse r s) = stringifyThrows s"
  by (simp add: this_onResponse_def Let_def )

lemma stringifyThrows_stream [simp]: "stringifyThrows (snd (stream req s)) = stringifyThrows s"
  by (simp add: stream_def Let_def )

lemma stringifyThrows_deliver [simp]: "stringifyThrows (deliver k out s) = stringifyThrows s"
  by (simp add: deliver_def Let_def )

lemma stringifyThrows_finally_f [simp]: "stringifyThrows (finally' k s) = stringifyThrows s"
  by (simp add: finally'_def Let_def )

lemma stringifyThrows_finish [simp]: "stringifyThrows (finish k out s) = stringifyThrows s"
  by (simp add: finish_def Let_def )

lemma stringifyThrows_afterLoop [simp]: "stringifyThrows (afterLoop k s) = stringifyThrows s"
  by (simp add: afterLoop_def Let_def split: option.splits)

lemma stringifyThrows_loop [simp]: "stringifyThrows (loop k s) = stringifyThrows s"
  by (simp add: loop_def Let_def split: list.splits)

lemma stringifyThrows_start [simp]: "stringifyThrows (start k s) = stringifyThrows s"
  by (simp add: start_def Let_def split: option.splits)

lemma stringifyThrows_generator_next [simp]: "stringifyThrows (generator_next k s) = stringifyThrows s"
  by (simp add: generator_next_def Let_def split: GenState.splits)

lemma stringifyThrows_resume [simp]: "stringifyThrows (resume k s) = stringifyThrows s"
  by (simp add: resume_def Let_def split: GenState.splits IterResult.splits)

lemma stringifyThrows_runAll [simp]: "stringifyThrows (runAll ks s) = stringifyThrows s"
  by (induction ks arbitrary: s) simp_all

lemma stringifyThrows_runMicrotasks [simp]: "stringifyThrows (runMicrotasks s) = stringifyThrows s"
  by (simp add: runMicrotasks_def Let_def )

lemma stringifyThrows_onData_loop [simp]: "stringifyThrows (snd (onData_loop parse b s)) = stringifyThrows s"
proof (induction parse b s rule: onData_loop.induct)
  case (1 parse buffer s)
  show ?case
    by (subst onData_loop.simps) (simp add: 1 Let_def split: option.splits)
qed

lemma stringifyThrows_onData [simp]: "stringifyThrows (onData parse sock d s) = stringifyThrows s"
  by (simp add: onData_def Let_def )

lemma stringifyThrows_socket_data [simp]: "stringifyThrows (socket_data parse sock d s) = stringifyThrows s"
  by (simp add: socket_data_def Let_def )

lemma stringifyThrows_socket_close [simp]: "stringifyThrows (socket_close s) = stringifyThrows s"
  by (simp add: socket_close_def Let_def )

lemma stringifyThrows_close_call [simp]: "stringifyThrows (close_call s) = stringifyThrows s"
  by (simp add: close_call_def Let_def )

lemma stringifyThrows_connect [simp]: "stringifyThrows (snd (connect options s)) = stringifyThrows s"
  by (simp add: connect_def Let_def )

lemma stringifyThrows_generateId [simp]: "stringifyThrows (snd (generateId s)) = stringifyThrows s"
  by (simp add: generateId_def Let_def )

section \<open>Frame facts for sequences\<close>

lemma nextId_exec: "x \<noteq> GenerateId \<Longrightarrow> nextId (exec parse x s) = nextId s"
  by (cases x) simp_all

lemma attempts_exec:
  "\<not> ofAttempt a x \<Longrightarrow> a < nextAttempt s \<Longrightarrow>
     attempts (exec parse x s) a = attempts s a \<and> a < nextAttempt (exec parse x s)"
  by (cases x)
     (simp_all add: connect_def Let_def connectTimerFires_def socket_open_def
        socket_error_def resolveAttempt_def rejectAttempt_def updAttempt_def)

lemma outcome_exec:
  "outcome (attempts s a) \<noteq> Pending \<Longrightarrow> a < nextAttempt s \<Longrightarrow>
     outcome (attempts (exec parse x s) a) = outcome (attempts s a)
     \<and> a < nextAttempt (exec parse x s)"
proof (cases "ofAttempt a x")
  case False
  assume "a < nextAttempt s"
  with False show ?thesis by (simp add: attempts_exec)
next
  case True
  assume "outcome (attempts s a) \<noteq> Pending" "a < nextAttempt s"
  with True show ?thesis
    by (cases x)
       (auto simp: connectTimerFires_def socket_open_def socket_error_def
          resolveAttempt_def rejectAttempt_def updAttempt_def)
qed

lemma attempts_run:
  "\<forall>x\<in>set xs. \<not> ofAttempt a x \<Longrightarrow> a < nextAttempt s \<Longrightarrow>
     attempts (run parse xs s) a = attempts s a \<and> a < nextAttempt (run parse xs s)"
  by (induction xs arbitrary: s) (simp_all add: attempts_exec)

lemma outcome_run:
  "outcome (attempts s a) \<noteq> Pending \<Longrightarrow> a < nextAttempt s \<Longrightarrow>
     outcome (attempts (run parse xs s) a) = outcome (attempts s a)
     \<and> a < nextAttempt (run parse xs s)"
  by (induction xs arbitrary: s) (simp_all add: outcome_exec)

section \<open>State errors\<close>

text \<open>
  Claim C8. The state checks come before any input or output. \<^verbatim>\<open>connect\<close> in a state
  other than \<open>disconnected\<close> throws \<^verbatim>\<open>EISCONN\<close> and changes nothing. \<^verbatim>\<open>send\<close> in a state
  other than \<open>connected\<close> throws \<^verbatim>\<open>ENOTCONN\<close> and changes nothing: no frame is written,
  no waiter and no timer exist afterwards that did not before. Calling \<^verbatim>\<open>stream\<close> only
  creates the generator; its body runs at the first \<^verbatim>\<open>next()\<close>, and in a state other
  than \<open>connected\<close> that pull throws \<^verbatim>\<open>ENOTCONN\<close>, finishes the generator and changes
  nothing else.
\<close>

theorem state_errors_before_io:
  fixes s :: Transport
  shows "(state s \<noteq> disconnected \<longrightarrow>
            connect options s
              = (Inl (ConnectionError ''EISCONN'' ''Already connected or connecting''), s))
       \<and> (state s \<noteq> connected \<longrightarrow>
            send req timeout_opt s = (Inl (ConnectionError ''ENOTCONN'' ''Not connected''), s))
       \<and> pending (snd (stream req s)) = pending s
       \<and> written (snd (stream req s)) = written s
       \<and> (state s \<noteq> connected \<and> gen (streams s k) = SuspendedStart \<longrightarrow>
            generator_next k s
              = s\<lparr> streams := (streams s)
                     (k := (streams s k)
                        \<lparr> gen := Completed,
                          delivered := delivered (streams s k)
                             @ [Thrown (ConnectionError ''ENOTCONN'' ''Not connected'')] \<rparr>) \<rparr>)"
  by (simp add: connect_def send_def stream_def generator_next_def start_def deliver_def
      updStream_def NOT_CONNECTED_def Let_def)

theorem state_errors_before_io_witness:
  "(let s = snd (stream \<lparr> id' = ''1'', call = ''file:readdir'', args = [''/''] \<rparr>
                 (snd (connect \<lparr> opt_socketPath = None, opt_timeout = None \<rparr> newTransport)))
    in state s \<noteq> disconnected \<and> state s \<noteq> connected \<and> gen (streams s 0) = SuspendedStart
       \<and> connect \<lparr> opt_socketPath = Some ''/tmp/other.sock'', opt_timeout = None \<rparr> s
            = (Inl (ConnectionError ''EISCONN'' ''Already connected or connecting''), s)
       \<and> send \<lparr> id' = ''1'', call = ''proc:getpid'', args = [] \<rparr> None s
            = (Inl (ConnectionError ''ENOTCONN'' ''Not connected''), s)
       \<and> delivered (streams (generator_next 0 s) 0)
            = [Thrown (ConnectionError ''ENOTCONN'' ''Not connected'')]
       \<and> pending (generator_next 0 s) = [] \<and> written (generator_next 0 s) = [])"
  using state_errors_before_io
    [of "snd (stream \<lparr> id' = ''1'', call = ''file:readdir'', args = [''/''] \<rparr>
                 (snd (connect \<lparr> opt_socketPath = None, opt_timeout = None \<rparr> newTransport)))"
        "\<lparr> opt_socketPath = Some ''/tmp/other.sock'', opt_timeout = None \<rparr>"
        "\<lparr> id' = ''1'', call = ''proc:getpid'', args = [] \<rparr>" None 0]
  by (simp add: connect_def stream_def newTransport_def Let_def)

section \<open>Request ids\<close>

lemma digit_inj: "d < 10 \<Longrightarrow> e < 10 \<Longrightarrow> digit d = digit e \<Longrightarrow> d = e"
proof -
  assume d: "d < 10" and e: "e < 10" and eq: "digit d = digit e"
  have dd: "d \<in> {0,1,2,3,4,5,6,7,8,9}" using d by auto
  have ee: "e \<in> {0,1,2,3,4,5,6,7,8,9}" using e by auto
  show ?thesis using dd ee eq by (auto simp: digit_def)
qed

lemma Number_toString_nonempty: "Number_toString n \<noteq> []"
  by (subst Number_toString.simps) simp

lemma Number_toString_inj: "Number_toString m = Number_toString n \<Longrightarrow> m = n"
proof (induction m arbitrary: n rule: Number_toString.induct)
  case (1 m)
  show ?case
  proof (cases "m < 10")
    case small: True
    show ?thesis
    proof (cases "n < 10")
      case True
      with small 1(2) show ?thesis
        by (simp add: Number_toString.simps [of m] Number_toString.simps [of n] digit_inj)
    next
      case False
      with small 1(2) show ?thesis
        using Number_toString_nonempty [of "n div 10"]
        by (simp add: Number_toString.simps [of m] Number_toString.simps [of n])
    qed
  next
    case big: False
    show ?thesis
    proof (cases "n < 10")
      case True
      with big 1(2) show ?thesis
        using Number_toString_nonempty [of "m div 10"]
        by (simp add: Number_toString.simps [of m] Number_toString.simps [of n])
    next
      case False
      with big 1(2) have a: "Number_toString (m div 10) = Number_toString (n div 10)"
        and b: "digit (m mod 10) = digit (n mod 10)"
        by (simp_all add: Number_toString.simps [of m] Number_toString.simps [of n])
      from 1(1) [OF big a] have "m div 10 = n div 10" .
      moreover from b have "m mod 10 = n mod 10" by (simp add: digit_inj)
      ultimately show ?thesis by (metis div_mult_mod_eq)
    qed
  qed
qed

lemma generated_eq:
  "nextId s + calls xs \<le> MAX_EXACT \<Longrightarrow>
     generated parse xs s = map Number_toString [nextId s ..< nextId s + calls xs]
     \<and> nextId (run parse xs s) = nextId s + calls xs"
proof (induction xs arbitrary: s)
  case Nil
  then show ?case by (simp add: calls_def)
next
  case (Cons x xs)
  show ?case
  proof (cases "x = GenerateId")
    case True
    define s' where "s' = snd (generateId s)"
    from Cons.prems True have lt: "nextId s < MAX_EXACT" by (simp add: calls_def)
    then have n: "nextId s' = Suc (nextId s)"
      by (simp add: s'_def generateId_def increment_def)
    have c: "calls (x # xs) = Suc (calls xs)" using True by (simp add: calls_def)
    from Cons.prems have "nextId s' + calls xs \<le> MAX_EXACT" by (simp add: n c)
    from Cons.IH [OF this]
    have ih1: "generated parse xs s'
                 = map Number_toString [Suc (nextId s) ..< Suc (nextId s) + calls xs]"
      and ih2: "nextId (run parse xs s') = Suc (nextId s) + calls xs"
      by (simp_all add: n)
    have "generated parse (x # xs) s = Number_toString (nextId s) # generated parse xs s'"
      using True by (simp add: s'_def generateId_def)
    moreover have "[nextId s ..< nextId s + calls (x # xs)]
                     = nextId s # [Suc (nextId s) ..< Suc (nextId s) + calls xs]"
      by (simp add: c upt_rec [of "nextId s"])
    moreover have "run parse (x # xs) s = run parse xs s'"
      using True by (simp add: s'_def)
    ultimately show ?thesis by (simp add: ih1 ih2 c)
  next
    case False
    then have n: "nextId (exec parse x s) = nextId s" by (rule nextId_exec)
    from Cons.prems False have "nextId (exec parse x s) + calls xs \<le> MAX_EXACT"
      by (simp add: n calls_def)
    from Cons.IH [OF this] False show ?thesis
      by (simp add: n calls_def)
  qed
qed

lemma generated_append:
  "generated parse (xs @ ys) s = generated parse xs s @ generated parse ys (run parse xs s)"
  by (induction xs arbitrary: s) simp_all

lemma calls_replicate: "calls (replicate n GenerateId) = n"
  by (induction n) (simp_all add: calls_def)

lemma generated_no_calls: "calls xs = 0 \<Longrightarrow> generated parse xs s = []"
  by (induction xs arbitrary: s) (auto simp: calls_def split: if_splits)

lemma generated_upto:
  "nextId s \<le> MAX_EXACT \<Longrightarrow> nextId s + calls xs \<le> Suc MAX_EXACT \<Longrightarrow>
     generated parse xs s = map Number_toString [nextId s ..< nextId s + calls xs]"
proof (cases "calls xs = 0")
  case True
  then show ?thesis by (simp add: generated_no_calls)
next
  case False
  assume a: "nextId s \<le> MAX_EXACT" and b: "nextId s + calls xs \<le> Suc MAX_EXACT"
  from False have "filter (\<lambda>x. x = GenerateId) xs \<noteq> []" by (simp add: calls_def)
  then have "\<exists>x\<in>set xs. x = GenerateId" by (simp add: filter_empty_conv)
  then have "GenerateId \<in> set xs" by simp
  then obtain ys zs where xs: "xs = ys @ GenerateId # zs" and last: "GenerateId \<notin> set zs"
    by (auto dest: split_list_last)
  have cz: "calls zs = 0" using last by (auto simp: calls_def filter_empty_conv)
  have c: "calls xs = Suc (calls ys)" by (simp add: xs calls_def cz [unfolded calls_def])
  from b have le: "nextId s + calls ys \<le> MAX_EXACT" by (simp add: c)
  from generated_eq [OF le, of parse]
  have g: "generated parse ys s = map Number_toString [nextId s ..< nextId s + calls ys]"
    and r: "nextId (run parse ys s) = nextId s + calls ys"
    by simp_all
  have "generated parse xs s
          = generated parse ys s @ [Number_toString (nextId s + calls ys)]"
    by (simp add: xs generated_append generateId_def r generated_no_calls [OF cz])
  then show ?thesis by (simp add: g c)
qed


text \<open>
  Claim C7, as amended. In every sequence of calls and callbacks on a new \<^verbatim>\<open>Transport\<close>
  that calls \<^verbatim>\<open>generateId\<close> at most \<open>2^53\<close> times, the ids returned are the decimal
  numerals of \<open>1, 2, 3, ...\<close> in this order, whatever else happens in between
  (connects, closes, sends, streams, timers, incoming data), and no two of them are
  equal. While fewer than \<open>2^53\<close> ids have been generated the counter is one more than
  their number: nothing resets it.
\<close>

theorem generateId_counter:
  "(calls xs \<le> 2 ^ 53 \<longrightarrow>
      generated parse xs newTransport = map Number_toString [1 ..< Suc (calls xs)]
      \<and> distinct (generated parse xs newTransport))
   \<and> (calls xs < 2 ^ 53 \<longrightarrow> nextId (run parse xs newTransport) = Suc (calls xs))"
proof -
  have n: "nextId newTransport = 1" by (simp add: newTransport_def)
  have "inj Number_toString" by (rule injI) (rule Number_toString_inj)
  then have d: "distinct (map Number_toString [1 ..< Suc (calls xs)])"
    by (simp add: distinct_map inj_on_def)
  have "generated parse xs newTransport = map Number_toString [1 ..< Suc (calls xs)]"
    if "calls xs \<le> 2 ^ 53"
    using generated_upto [of newTransport xs parse] that by (simp add: n MAX_EXACT_def)
  moreover have "nextId (run parse xs newTransport) = Suc (calls xs)" if "calls xs < 2 ^ 53"
    using generated_eq [of newTransport xs parse] that by (simp add: n MAX_EXACT_def)
  ultimately show ?thesis using d by simp
qed

theorem generateId_counter_witness:
  "calls [GenerateId, Connect \<lparr> opt_socketPath = None, opt_timeout = None \<rparr>, GenerateId,
          SocketOpen 0 3, Close, GenerateId] < 2 ^ 53
   \<and> nextId (run (\<lambda>l. None)
        [GenerateId, Connect \<lparr> opt_socketPath = None, opt_timeout = None \<rparr>, GenerateId,
         SocketOpen 0 3, Close, GenerateId] newTransport) = 4
   \<and> generated (\<lambda>l. None)
        [GenerateId, Connect \<lparr> opt_socketPath = None, opt_timeout = None \<rparr>, GenerateId,
         SocketOpen 0 3, Close, GenerateId] newTransport
      = [''1'', ''2'', ''3'']"
  using generateId_counter
    [of "[GenerateId, Connect \<lparr> opt_socketPath = None, opt_timeout = None \<rparr>, GenerateId,
          SocketOpen 0 3, Close, GenerateId]" "\<lambda>l. None"]
  by (simp add: calls_def upt_rec Number_toString.simps digit_def)


text \<open>
  Claim C7 as stated fails for longer sequences: the counter is a double and
  \<open>2^53 + 1\<close> rounds to \<open>2^53\<close>, so the ids returned by \<open>2^53 + 1\<close> calls are not all
  different.
\<close>

theorem generateId_repeats_counterexample:
  "\<not> distinct (generated (\<lambda>l. None)
                  (replicate (MAX_EXACT - 1) GenerateId @ [GenerateId, GenerateId])
                  newTransport)"
proof -
  let ?xs = "replicate (MAX_EXACT - 1) GenerateId"
  let ?p = "\<lambda>l::string. None::Response option"
  have n: "nextId newTransport = 1" by (simp add: newTransport_def)
  have pos: "1 \<le> MAX_EXACT" by (simp add: MAX_EXACT_def)
  have "nextId newTransport + calls ?xs \<le> MAX_EXACT"
    using pos by (simp add: n calls_replicate)
  from generated_eq [OF this, of ?p]
  have r: "nextId (run ?p ?xs newTransport) = MAX_EXACT"
    using pos by (simp add: n calls_replicate)
  have "nextId s = MAX_EXACT \<Longrightarrow>
          generated ?p [GenerateId, GenerateId] s
            = [Number_toString MAX_EXACT, Number_toString MAX_EXACT]" for s
    by (simp add: generateId_def increment_def)
  from this [OF r] show ?thesis
    by (simp add: generated_append)
qed

section \<open>Connect timeout\<close>

text \<open>
  Claim C9, as amended. Take a \<^verbatim>\<open>connect\<close> that starts the attempt \<open>a\<close>, then any calls
  and callbacks \<open>xs\<close> other than the callbacks of that attempt, then the firing of its
  timer: the timer fires before the stream opens. Then \<^verbatim>\<open>connect\<close> is rejected with the
  \<^verbatim>\<open>TimeoutError\<close> for its path and timeout, and the state is \<open>disconnected\<close>. Whatever
  happens afterwards (\<open>ys\<close>), the outcome of the attempt stays that rejection. If the
  stream of the attempt opens afterwards, that \<^verbatim>\<open>open\<close> callback leaves the connection
  state and the outcome as they are, and it stores the socket in \<^verbatim>\<open>this.socket\<close>.
\<close>

theorem connect_timeout:
  assumes c: "connect options s = (Inr a, s0)"
      and quiet: "\<forall>x\<in>set xs. \<not> ofAttempt a x"
  shows "state (connectTimerFires a (run parse xs s0)) = disconnected
       \<and> outcome (attempts (connectTimerFires a (run parse xs s0)) a)
           = Rejected (TimeoutError (''Connection to ''
               @ (case opt_socketPath options of None \<Rightarrow> DEFAULT_SOCKET_PATH | Some p \<Rightarrow> p)
               @ '' timed out after ''
               @ Number_toString (case opt_timeout options of None \<Rightarrow> DEFAULT_TIMEOUT | Some t \<Rightarrow> t)
               @ ''ms''))
       \<and> (\<forall>ys sock.
             outcome (attempts (run parse ys (connectTimerFires a (run parse xs s0))) a)
               = outcome (attempts (connectTimerFires a (run parse xs s0)) a)
           \<and> state (socket_open a sock (run parse ys (connectTimerFires a (run parse xs s0))))
               = state (run parse ys (connectTimerFires a (run parse xs s0)))
           \<and> outcome (attempts (socket_open a sock
                         (run parse ys (connectTimerFires a (run parse xs s0)))) a)
               = outcome (attempts (connectTimerFires a (run parse xs s0)) a)
           \<and> socket (socket_open a sock (run parse ys (connectTimerFires a (run parse xs s0))))
               = Some sock)"
proof -
  let ?s1 = "run parse xs s0"
  let ?s2 = "connectTimerFires a ?s1"
  from c have d: "state s = disconnected"
    by (auto simp: connect_def split: if_splits)
  from c d have a: "a = nextAttempt s"
    and s0: "s0 = s\<lparr> state := connecting,
               attempts := (attempts s)(a := \<lparr> socketPath =
                    (case opt_socketPath options of None \<Rightarrow> DEFAULT_SOCKET_PATH | Some p \<Rightarrow> p),
                  timeout = (case opt_timeout options of None \<Rightarrow> DEFAULT_TIMEOUT | Some t \<Rightarrow> t),
                  timerArmed = True, outcome = Pending \<rparr>),
               nextAttempt := a + 1 \<rparr>"
    by (auto simp: connect_def Let_def)
  have lt: "a < nextAttempt s0" by (simp add: s0)
  from attempts_run [OF quiet lt, of parse]
  have at: "attempts ?s1 a = attempts s0 a" and lt1: "a < nextAttempt ?s1" by simp_all
  have at0: "attempts s0 a = \<lparr> socketPath =
                    (case opt_socketPath options of None \<Rightarrow> DEFAULT_SOCKET_PATH | Some p \<Rightarrow> p),
                  timeout = (case opt_timeout options of None \<Rightarrow> DEFAULT_TIMEOUT | Some t \<Rightarrow> t),
                  timerArmed = True, outcome = Pending \<rparr>"
    by (simp add: s0)
  have st: "state ?s2 = disconnected"
    by (simp add: connectTimerFires_def rejectAttempt_def updAttempt_def at at0)
  have out: "outcome (attempts ?s2 a)
           = Rejected (TimeoutError (''Connection to ''
               @ (case opt_socketPath options of None \<Rightarrow> DEFAULT_SOCKET_PATH | Some p \<Rightarrow> p)
               @ '' timed out after ''
               @ Number_toString (case opt_timeout options of None \<Rightarrow> DEFAULT_TIMEOUT | Some t \<Rightarrow> t)
               @ ''ms''))"
    by (simp add: connectTimerFires_def rejectAttempt_def updAttempt_def at at0)
  have lt2: "a < nextAttempt ?s2" using lt1 by simp
  have np: "outcome (attempts ?s2 a) \<noteq> Pending" by (simp add: out)
  have late: "outcome (attempts (run parse ys ?s2) a) = outcome (attempts ?s2 a)" for ys
    using outcome_run [OF np lt2, of parse ys] by simp
  have op: "state (socket_open a sock (run parse ys ?s2)) = state (run parse ys ?s2)
          \<and> outcome (attempts (socket_open a sock (run parse ys ?s2)) a)
              = outcome (attempts ?s2 a)
          \<and> socket (socket_open a sock (run parse ys ?s2)) = Some sock" for ys sock
    using late [of ys] np
    by (simp add: socket_open_def resolveAttempt_def updAttempt_def)
  show ?thesis using st out late op by blast
qed


theorem connect_timeout_witness:
  "connect \<lparr> opt_socketPath = Some ''/tmp/none.sock'', opt_timeout = Some 100 \<rparr> newTransport
     = (Inr 0, snd (connect \<lparr> opt_socketPath = Some ''/tmp/none.sock'',
                               opt_timeout = Some 100 \<rparr> newTransport))
   \<and> \<not> ofAttempt 0 GenerateId
   \<and> state (connectTimerFires 0 (run (\<lambda>l. None) [GenerateId]
         (snd (connect \<lparr> opt_socketPath = Some ''/tmp/none.sock'',
                           opt_timeout = Some 100 \<rparr> newTransport)))) = disconnected
   \<and> outcome (attempts (connectTimerFires 0 (run (\<lambda>l. None) [GenerateId]
         (snd (connect \<lparr> opt_socketPath = Some ''/tmp/none.sock'',
                           opt_timeout = Some 100 \<rparr> newTransport)))) 0)
       = Rejected (TimeoutError ''Connection to /tmp/none.sock timed out after 100ms'')
   \<and> state (socket_open 0 5 (run (\<lambda>l. None) [] (connectTimerFires 0 (run (\<lambda>l. None) [GenerateId]
         (snd (connect \<lparr> opt_socketPath = Some ''/tmp/none.sock'',
                           opt_timeout = Some 100 \<rparr> newTransport)))))) = disconnected"
proof -
  let ?o = "\<lparr> opt_socketPath = Some ''/tmp/none.sock'', opt_timeout = Some 100 \<rparr>"
  have c: "connect ?o newTransport = (Inr 0, snd (connect ?o newTransport))"
    by (simp add: connect_def newTransport_def Let_def)
  have q: "\<forall>x\<in>set [GenerateId]. \<not> ofAttempt 0 x" by simp
  note t = connect_timeout [OF c q, of "\<lambda>l. None"]
  from t have "state (connectTimerFires 0 (run (\<lambda>l. None) [GenerateId]
                 (snd (connect ?o newTransport)))) = disconnected" by blast
  moreover from t have "outcome (attempts (connectTimerFires 0 (run (\<lambda>l. None) [GenerateId]
         (snd (connect ?o newTransport)))) 0)
       = Rejected (TimeoutError ''Connection to /tmp/none.sock timed out after 100ms'')"
    by (simp add: Number_toString.simps digit_def)
  moreover from t have "state (socket_open 0 5 (run (\<lambda>l. None) []
         (connectTimerFires 0 (run (\<lambda>l. None) [GenerateId] (snd (connect ?o newTransport))))))
       = state (run (\<lambda>l. None) []
         (connectTimerFires 0 (run (\<lambda>l. None) [GenerateId] (snd (connect ?o newTransport)))))"
    by blast
  ultimately show ?thesis using c q by simp
qed


text \<open>
  Claim C9 as stated says that after the timeout a late \<^verbatim>\<open>open\<close> installs no stream
  handle. The \<^verbatim>\<open>open\<close> callback assigns \<^verbatim>\<open>this.socket\<close> without looking at the outcome of
  its attempt: after a timed-out connect and a late open of socket \<open>5\<close>, the state is
  \<open>disconnected\<close> and \<^verbatim>\<open>this.socket\<close> is socket \<open>5\<close>.
\<close>

theorem late_open_installs_socket_counterexample:
  "outcome (attempts (connectTimerFires 0
     (snd (connect \<lparr> opt_socketPath = Some ''/tmp/none.sock'', opt_timeout = Some 100 \<rparr>
             newTransport))) 0)
     = Rejected (TimeoutError ''Connection to /tmp/none.sock timed out after 100ms'')
   \<and> state (socket_open 0 5 (connectTimerFires 0
     (snd (connect \<lparr> opt_socketPath = Some ''/tmp/none.sock'', opt_timeout = Some 100 \<rparr>
             newTransport)))) = disconnected
   \<and> socket (socket_open 0 5 (connectTimerFires 0
     (snd (connect \<lparr> opt_socketPath = Some ''/tmp/none.sock'', opt_timeout = Some 100 \<rparr>
             newTransport)))) = Some 5"
  by (simp add: socket_open_def resolveAttempt_def rejectAttempt_def updAttempt_def
      connectTimerFires_def connect_def newTransport_def Let_def Number_toString.simps
      digit_def)

section \<open>Framing\<close>

lemma indexOf_None: "indexOf b c = None \<longleftrightarrow> c \<notin> set b"
  by (induction b) auto

lemma spec_frames_no_newline: "newline \<notin> set b \<Longrightarrow> spec_frames b = ([], b)"
  by (induction b) auto

lemma spec_frames_at:
  "indexOf b newline = Some i \<Longrightarrow>
     spec_frames b = (take i b # fst (spec_frames (drop (i + 1) b)),
                      snd (spec_frames (drop (i + 1) b)))"
proof (induction b arbitrary: i)
  case Nil
  then show ?case by simp
next
  case (Cons c cs)
  show ?case
  proof (cases "c = newline")
    case True
    with Cons.prems show ?thesis by simp
  next
    case False
    with Cons.prems obtain j where j: "indexOf cs newline = Some j" and i: "i = Suc j"
      by auto
    from Cons.IH [OF j] False show ?thesis by (simp add: i)
  qed
qed

lemma onData_loop_frames:
  "onData_loop parse b s
     = (snd (spec_frames b), fold this_onResponse (spec_messages parse (fst (spec_frames b))) s)"
proof (induction parse b s rule: onData_loop.induct)
  case (1 parse buffer s)
  show ?case
  proof (cases "indexOf buffer newline")
    case None
    then have "newline \<notin> set buffer" by (simp add: indexOf_None)
    then have "spec_frames buffer = ([], buffer)" by (rule spec_frames_no_newline)
    with None show ?thesis
      by (subst onData_loop.simps) (simp add: spec_messages_def List.map_filter_simps)
  next
    case (Some i)
    note sf = spec_frames_at [OF Some]
    define s' where "s' = (if trim (take i buffer) \<noteq> []
                           then (case parse (take i buffer) of
                                   Some response \<Rightarrow> this_onResponse response s
                                 | None \<Rightarrow> s)
                           else s)"
    have step: "onData_loop parse buffer s = onData_loop parse (drop (i + 1) buffer) s'"
      by (subst onData_loop.simps) (simp add: Some s'_def Let_def)
    have ih: "onData_loop parse (drop (i + 1) buffer) s'
                = (snd (spec_frames (drop (i + 1) buffer)),
                   fold this_onResponse
                     (spec_messages parse (fst (spec_frames (drop (i + 1) buffer)))) s')"
      using 1 [OF Some refl refl] by (simp add: s'_def)
    have msgs: "fold this_onResponse (spec_messages parse (take i buffer # fs)) s
                  = fold this_onResponse (spec_messages parse fs) s'" for fs
      by (simp add: spec_messages_def List.map_filter_simps s'_def split: option.splits)
    show ?thesis by (simp only: step ih sf fst_conv snd_conv msgs)
  qed
qed

lemma spec_frames_join:
  "concat (map (\<lambda>f. f @ [newline]) (fst (spec_frames b))) @ snd (spec_frames b) = b"
  by (induction b) (auto split: list.splits)

lemma spec_frames_rest: "newline \<notin> set (snd (spec_frames b))"
  by (induction b) (auto split: list.splits)

lemma spec_frames_each: "f \<in> set (fst (spec_frames b)) \<Longrightarrow> newline \<notin> set f"
  by (induction b arbitrary: f) (auto split: list.splits if_splits)

lemma trim_empty: "trim l = [] \<longleftrightarrow> (\<forall>c\<in>set l. isWhiteSpace c)"
proof
  assume "trim l = []"
  then have a: "\<forall>c\<in>set (dropWhile isWhiteSpace l). isWhiteSpace c"
    by (simp add: trim_def dropWhile_eq_Nil_conv)
  show "\<forall>c\<in>set l. isWhiteSpace c"
  proof (cases "dropWhile isWhiteSpace l = []")
    case True
    then show ?thesis by (simp add: dropWhile_eq_Nil_conv)
  next
    case False
    then have "\<not> isWhiteSpace (hd (dropWhile isWhiteSpace l))" by (rule hd_dropWhile)
    moreover from False have "hd (dropWhile isWhiteSpace l) \<in> set (dropWhile isWhiteSpace l)"
      by simp
    ultimately show ?thesis using a by blast
  qed
next
  assume "\<forall>c\<in>set l. isWhiteSpace c"
  then have e: "dropWhile isWhiteSpace l = []" by (simp add: dropWhile_eq_Nil_conv)
  show "trim l = []" unfolding trim_def e by simp
qed



lemmas exec_defs = connect_def socket_open_def resolveAttempt_def updAttempt_def send_def
  settle_def clearTimeout_def newTransport_def Let_def

text \<open>
  Claim C5. \<^verbatim>\<open>onData\<close> appends the chunk to the buffer of its socket and splits the
  text into its complete frames and the partial frame after them: the frames, each
  followed by the newline that ended it, and then the rest give back the text; neither
  a frame nor the rest contains a newline. The rest is the buffer afterwards. Of the
  frames, in order, one that is empty or all white space is skipped, one that does not
  parse is dropped, and every other one yields its message; the messages are passed to
  \<^verbatim>\<open>this.onResponse\<close> one by one in that order. Nothing else changes.
\<close>

theorem onData_frames:
  "onData parse sock data s
     = (fold this_onResponse
          (spec_messages parse (fst (spec_frames (buffers s sock @ data)))) s)
         \<lparr> buffers := (buffers s)(sock := snd (spec_frames (buffers s sock @ data))) \<rparr>
   \<and> concat (map (\<lambda>f. f @ [newline]) (fst (spec_frames (buffers s sock @ data))))
         @ snd (spec_frames (buffers s sock @ data)) = buffers s sock @ data
   \<and> newline \<notin> set (snd (spec_frames (buffers s sock @ data)))
   \<and> (\<forall>f\<in>set (fst (spec_frames (buffers s sock @ data))). newline \<notin> set f)
   \<and> spec_messages parse [] = []
   \<and> spec_messages parse (f # fs)
       = (if \<forall>c\<in>set f. isWhiteSpace c then spec_messages parse fs
          else case parse f of
                 None \<Rightarrow> spec_messages parse fs
               | Some response \<Rightarrow> response # spec_messages parse fs)"
proof -
  have b: "buffers (fold this_onResponse rs s) = buffers s" for rs
    by (induction rs arbitrary: s) simp_all
  have "onData parse sock data s
     = (fold this_onResponse
          (spec_messages parse (fst (spec_frames (buffers s sock @ data)))) s)
         \<lparr> buffers := (buffers s)(sock := snd (spec_frames (buffers s sock @ data))) \<rparr>"
    by (simp add: onData_def onData_loop_frames Let_def b)
  moreover have "spec_messages parse (f # fs)
       = (if \<forall>c\<in>set f. isWhiteSpace c then spec_messages parse fs
          else case parse f of
                 None \<Rightarrow> spec_messages parse fs
               | Some response \<Rightarrow> response # spec_messages parse fs)"
    by (simp add: spec_messages_def List.map_filter_simps trim_empty split: option.splits)
  moreover have "spec_messages parse [] = []"
    by (simp add: spec_messages_def List.map_filter_simps)
  ultimately show ?thesis
    using spec_frames_join [of "buffers s sock @ data"]
      spec_frames_rest [of "buffers s sock @ data"]
      spec_frames_each [of _ "buffers s sock @ data"]
    by blast
qed

theorem onData_frames_witness:
  "promises
     (onData (\<lambda>l. if l = ''A'' then Some (OkResponse ''1'' None)
                   else if l = ''B'' then Some (DoneResponse ''2'') else None)
        7 (''A'' @ [newline] @ ''B'' @ [newline] @ ''  '' @ [newline] @ ''{bad'' @ [newline] @ ''C'')
        (run (\<lambda>l. None)
           [Connect \<lparr> opt_socketPath = None, opt_timeout = None \<rparr>, SocketOpen 0 7,
            Send \<lparr> id' = ''1'', call = ''ping'', args = [] \<rparr> None,
            Send \<lparr> id' = ''2'', call = ''ping'', args = [] \<rparr> None] newTransport)) 0
     = Resolved [OkResponse ''1'' None]
   \<and> promises
     (onData (\<lambda>l. if l = ''A'' then Some (OkResponse ''1'' None)
                   else if l = ''B'' then Some (DoneResponse ''2'') else None)
        7 (''A'' @ [newline] @ ''B'' @ [newline] @ ''  '' @ [newline] @ ''{bad'' @ [newline] @ ''C'')
        (run (\<lambda>l. None)
           [Connect \<lparr> opt_socketPath = None, opt_timeout = None \<rparr>, SocketOpen 0 7,
            Send \<lparr> id' = ''1'', call = ''ping'', args = [] \<rparr> None,
            Send \<lparr> id' = ''2'', call = ''ping'', args = [] \<rparr> None] newTransport)) 1
     = Resolved [DoneResponse ''2'']
   \<and> buffers
     (onData (\<lambda>l. if l = ''A'' then Some (OkResponse ''1'' None)
                   else if l = ''B'' then Some (DoneResponse ''2'') else None)
        7 (''A'' @ [newline] @ ''B'' @ [newline] @ ''  '' @ [newline] @ ''{bad'' @ [newline] @ ''C'')
        (run (\<lambda>l. None)
           [Connect \<lparr> opt_socketPath = None, opt_timeout = None \<rparr>, SocketOpen 0 7,
            Send \<lparr> id' = ''1'', call = ''ping'', args = [] \<rparr> None,
            Send \<lparr> id' = ''2'', call = ''ping'', args = [] \<rparr> None] newTransport)) 7
     = ''C''"
proof -
  let ?parse = "\<lambda>l. if l = ''A'' then Some (OkResponse ''1'' None)
                   else if l = ''B'' then Some (DoneResponse ''2'') else None"
  let ?s = "run (\<lambda>l. None)
           [Connect \<lparr> opt_socketPath = None, opt_timeout = None \<rparr>, SocketOpen 0 7,
            Send \<lparr> id' = ''1'', call = ''ping'', args = [] \<rparr> None,
            Send \<lparr> id' = ''2'', call = ''ping'', args = [] \<rparr> None] newTransport"
  let ?d = "''A'' @ [newline] @ ''B'' @ [newline] @ ''  '' @ [newline] @ ''{bad'' @ [newline] @ ''C''"
  have b: "buffers ?s 7 = []" by (simp add: exec_defs)
  have f: "spec_frames ?d = ([''A'', ''B'', ''  '', ''{bad''], ''C'')"
    by (simp add: newline_def)
  have m: "spec_messages ?parse [''A'', ''B'', ''  '', ''{bad'']
             = [OkResponse ''1'' None, DoneResponse ''2'']"
    by (simp add: spec_messages_def List.map_filter_simps trim_def isWhiteSpace_def)
  from onData_frames [of ?parse 7 ?d ?s]
  have "onData ?parse 7 ?d ?s
     = (fold this_onResponse [OkResponse ''1'' None, DoneResponse ''2''] ?s)
         \<lparr> buffers := (buffers ?s)(7 := ''C'') \<rparr>"
    by (simp only: b append_Nil f fst_conv snd_conv m)
  then show ?thesis
    by (simp add: this_onResponse_def onResponse_method_def exec_defs)
qed

section \<open>Facts about dispatch\<close>

lemma handler_frame [simp]:
  "promises (handler k r s) = promises s" "timers (handler k r s) = timers s"
  by (simp_all add: handler_def updStream_def Let_def)

lemma dispatch_not_overridden:
  "\<not> overrides h (response_id r) \<Longrightarrow> dispatch h r s = onResponse_method r s"
  by (induction h) auto

lemma method_unknown: "map_of (pending s) (response_id r) = None \<Longrightarrow> onResponse_method r s = s"
  by (simp add: onResponse_method_def)

lemma method_item:
  "map_of (pending s) (response_id r) = Some w \<Longrightarrow> \<not> isTerminal r \<Longrightarrow>
     onResponse_method r s
       = s\<lparr> pending := AList.update (response_id r) (w\<lparr> responses := responses w @ [r] \<rparr>)
                          (pending s) \<rparr>"
  by (simp add: onResponse_method_def Let_def)

lemma method_terminal:
  "map_of (pending s) (response_id r) = Some w \<Longrightarrow> isTerminal r \<Longrightarrow>
     onResponse_method r s
       = (let s3 = s\<lparr> timers := (case timer w of Some t \<Rightarrow> (timers s)(t := None)
                                  | None \<Rightarrow> timers s),
                       pending := AList.delete (response_id r) (pending s) \<rparr>
          in case resolve w of
               ResolvePromise p \<Rightarrow> settle p (Resolved (responses w @ [r])) s3
             | ResolveNoop \<Rightarrow> s3)"
  by (simp add: onResponse_method_def Let_def clearTimeout_def AList.delete_update_same
      split: option.splits ResolveFn.splits)

lemma method_pending_other:
  "Y \<noteq> response_id r \<Longrightarrow> map_of (pending (onResponse_method r s)) Y = map_of (pending s) Y"
  by (cases "map_of (pending s) (response_id r)"; cases "isTerminal r")
     (simp_all add: method_unknown method_item method_terminal Let_def settle_def
        AList.update_conv' AList.delete_conv' split: ResolveFn.splits)

lemma dispatch_pending_other:
  "Y \<noteq> response_id r \<Longrightarrow> map_of (pending (dispatch h r s)) Y = map_of (pending s) Y"
  by (induction h) (simp_all add: method_pending_other)

lemma settle_settled: "promises s p \<noteq> Pending \<Longrightarrow> promises (settle q v s) p = promises s p"
  by (auto simp: settle_def)

lemma method_settled:
  "promises s p \<noteq> Pending \<Longrightarrow> promises (onResponse_method r s) p = promises s p"
  by (cases "map_of (pending s) (response_id r)"; cases "isTerminal r")
     (auto simp: method_unknown method_item method_terminal Let_def settle_def
        split: ResolveFn.splits)

lemma dispatch_settled:
  "promises s p \<noteq> Pending \<Longrightarrow> promises (dispatch h r s) p = promises s p"
  by (induction h) (simp_all add: method_settled)

lemma fold_settled:
  "promises s p \<noteq> Pending \<Longrightarrow> promises (fold this_onResponse rs s) p = promises s p"
  by (induction rs arbitrary: s) (simp_all add: this_onResponse_def dispatch_settled)

lemma allocated_fresh:
  "allocated s \<Longrightarrow> map_of (pending s) Y = Some w \<Longrightarrow>
     resolve w \<noteq> ResolvePromise (nextPromise s) \<and> reject w \<noteq> RejectPromise (nextPromise s)
     \<and> timer w \<noteq> Some (nextTimer s)"
proof -
  assume a: "allocated s" and m: "map_of (pending s) Y = Some w"
  from m have "(Y, w) \<in> set (pending s)" by (rule map_of_SomeD)
  with a have "(case resolve w of ResolvePromise p \<Rightarrow> p < nextPromise s | ResolveNoop \<Rightarrow> True)
             \<and> (case reject w of RejectPromise p \<Rightarrow> p < nextPromise s
                  | StreamErrorHandler k \<Rightarrow> True)
             \<and> (case timer w of Some t \<Rightarrow> t < nextTimer s | None \<Rightarrow> True)"
    by (auto simp: allocated_def waiters_allocated_def list_all_iff)
  then show ?thesis
    by (cases "resolve w"; cases "reject w"; cases "timer w") auto
qed

lemma send_ok:
  assumes "socket s = Some k" "state s = connected" "writeThrows s k = None"
          "stringifyThrows s req = None"
  shows "send req timeout_opt s
           = (Inr (nextPromise s),
              s\<lparr> pending := AList.update (id' req)
                     \<lparr> resolve = ResolvePromise (nextPromise s),
                       reject = RejectPromise (nextPromise s),
                       responses = [], timer = Some (nextTimer s) \<rparr> (pending s),
                 promises := (promises s)(nextPromise s := Pending),
                 nextPromise := nextPromise s + 1,
                 timers := (timers s)(nextTimer s := Some (id' req, nextPromise s,
                    case timeout_opt of None \<Rightarrow> 30000 | Some t \<Rightarrow> t)),
                 nextTimer := nextTimer s + 1,
                 written := written s @ [(k, req)] \<rparr>)"
  using assms by (simp add: send_def Let_def)

lemma send_tracked:
  assumes ok: "socket s = Some k" "state s = connected" "writeThrows s k = None"
              "stringifyThrows s req = None"
      and al: "allocated s"
      and no: "\<not> overrides (onResponse s) (id' req)"
  shows "tracked (snd (send req timeout_opt s)) (id' req) (nextPromise s) (nextTimer s)
           (case timeout_opt of None \<Rightarrow> 30000 | Some t \<Rightarrow> t) []"
  using no allocated_fresh [OF al]
  by (simp add: send_ok [OF ok] tracked_def others_free_def AList.update_conv')

lemma tracked_other:
  assumes t: "tracked s X p t tmo acc" and r: "response_id r \<noteq> X"
  shows "tracked (this_onResponse r s) X p t tmo acc"
proof -
  from t have m: "map_of (pending s) X
       = Some \<lparr> resolve = ResolvePromise p, reject = RejectPromise p, responses = acc,
                timer = Some t \<rparr>"
    and pp: "promises s p = Pending" and tt: "timers s t = Some (X, p, tmo)"
    and fr: "others_free s X p t" and no: "\<not> overrides (onResponse s) X"
    by (simp_all add: tracked_def)
  have "tracked (dispatch h r s) X p t tmo acc" if "\<not> overrides h X" for h
    using that
  proof (induction h)
    case Proto
    show ?case
    proof (cases "map_of (pending s) (response_id r)")
      case None
      then show ?thesis using t by (simp add: method_unknown)
    next
      case (Some w)
      from fr r Some have w: "resolve w \<noteq> ResolvePromise p" "timer w \<noteq> Some t"
        by (auto simp: others_free_def)
      show ?thesis
      proof (cases "isTerminal r")
        case False
        have "others_free (onResponse_method r s) X p t"
          using fr w Some
          by (auto simp: others_free_def method_item [OF Some False] AList.update_conv')
        then show ?thesis
          using m pp tt no r
          by (simp add: tracked_def method_item [OF Some False] AList.update_conv')
      next
        case True
        have "others_free (onResponse_method r s) X p t"
          using fr
          by (auto simp: others_free_def method_terminal [OF Some True] Let_def settle_def
                AList.delete_conv' split: ResolveFn.splits)
        then show ?thesis
          using m pp tt no r w
          by (auto simp: tracked_def method_terminal [OF Some True] Let_def settle_def
                AList.delete_conv' split: ResolveFn.splits option.splits)
      qed
    qed
  next
    case (Override j k h)
    then show ?case using t by (auto simp: tracked_def others_free_def)
  qed
  from this [OF no] show ?thesis by (simp add: this_onResponse_def)
qed

lemma tracked_item:
  assumes t: "tracked s X p t tmo acc" and r: "response_id r = X" and n: "\<not> isTerminal r"
  shows "tracked (this_onResponse r s) X p t tmo (acc @ [r])"
proof -
  from t have m: "map_of (pending s) (response_id r)
       = Some \<lparr> resolve = ResolvePromise p, reject = RejectPromise p, responses = acc,
                timer = Some t \<rparr>"
    and no: "\<not> overrides (onResponse s) (response_id r)"
    by (simp_all add: tracked_def r)
  show ?thesis
    using t r
    by (auto simp: this_onResponse_def dispatch_not_overridden [OF no] method_item [OF m n]
          tracked_def others_free_def AList.update_conv')
qed

lemma tracked_terminal:
  assumes t: "tracked s X p t tmo acc" and r: "response_id r = X" and n: "isTerminal r"
  shows "promises (this_onResponse r s) p = Resolved (acc @ [r])
       \<and> map_of (pending (this_onResponse r s)) X = None
       \<and> timers (this_onResponse r s) t = None"
proof -
  from t have m: "map_of (pending s) (response_id r)
       = Some \<lparr> resolve = ResolvePromise p, reject = RejectPromise p, responses = acc,
                timer = Some t \<rparr>"
    and no: "\<not> overrides (onResponse s) (response_id r)"
    by (simp_all add: tracked_def r)
  show ?thesis
    using t r
    by (simp add: this_onResponse_def dispatch_not_overridden [OF no] method_terminal [OF m n]
          tracked_def settle_def AList.delete_conv')
qed

lemma tracked_fold_items:
  "tracked s X p t tmo acc \<Longrightarrow> \<forall>m\<in>set ms. response_id m = X \<longrightarrow> \<not> isTerminal m \<Longrightarrow>
     tracked (fold this_onResponse ms s) X p t tmo (acc @ filter (\<lambda>m. response_id m = X) ms)"
proof (induction ms arbitrary: s acc)
  case Nil
  then show ?case by simp
next
  case (Cons m ms)
  show ?case
  proof (cases "response_id m = X")
    case True
    with Cons.prems have "tracked (this_onResponse m s) X p t tmo (acc @ [m])"
      by (simp add: tracked_item)
    from Cons.IH [OF this] Cons.prems(2) True show ?thesis by simp
  next
    case False
    with Cons.prems have "tracked (this_onResponse m s) X p t tmo acc"
      by (simp add: tracked_other)
    from Cons.IH [OF this] Cons.prems(2) False show ?thesis by simp
  qed
qed

lemma filter_snoc_split:
  "filter P ms = items @ [l] \<Longrightarrow>
     \<exists>us vs. ms = us @ l # vs \<and> filter P us = items \<and> filter P vs = []"
proof (induction ms arbitrary: items)
  case Nil
  then show ?case by simp
next
  case (Cons m ms)
  show ?case
  proof (cases "P m")
    case False
    with Cons.prems have "filter P ms = items @ [l]" by simp
    from Cons.IH [OF this] obtain us vs
      where "ms = us @ l # vs" "filter P us = items" "filter P vs = []" by blast
    with False have "m # ms = (m # us) @ l # vs \<and> filter P (m # us) = items \<and> filter P vs = []"
      by simp
    then show ?thesis by blast
  next
    case True
    show ?thesis
    proof (cases items)
      case Nil
      with True Cons.prems have "m # ms = [] @ l # ms \<and> filter P [] = items \<and> filter P ms = []"
        by simp
      then show ?thesis by blast
    next
      case (Cons i items')
      with True Cons.prems have mi: "m = i" and "filter P ms = items' @ [l]" by simp_all
      from Cons.IH [OF this(2)] obtain us vs
        where "ms = us @ l # vs" "filter P us = items'" "filter P vs = []" by blast
      with True mi Cons
      have "m # ms = (m # us) @ l # vs \<and> filter P (m # us) = items \<and> filter P vs = []"
        by simp
      then show ?thesis by blast
    qed
  qed
qed

lemma tracked_fold_terminal:
  assumes t: "tracked s X p t tmo acc"
      and f: "filter (\<lambda>m. response_id m = X) ms = items @ [last_one]"
      and i: "\<forall>m\<in>set items. \<not> isTerminal m" and l: "isTerminal last_one"
  shows "promises (fold this_onResponse ms s) p = Resolved (acc @ items @ [last_one])"
proof -
  from f have "last_one \<in> set (filter (\<lambda>m. response_id m = X) ms)" by simp
  then have lx: "response_id last_one = X" by simp
  from filter_snoc_split [OF f] obtain us vs where ms: "ms = us @ last_one # vs"
      and us: "filter (\<lambda>m. response_id m = X) us = items"
      and vs: "filter (\<lambda>m. response_id m = X) vs = []"
    by blast
  have "\<forall>m\<in>set us. response_id m = X \<longrightarrow> \<not> isTerminal m"
    using us i by auto
  from tracked_fold_items [OF t this]
  have "tracked (fold this_onResponse us s) X p t tmo (acc @ items)" by (simp add: us)
  from tracked_terminal [OF this lx l]
  have "promises (this_onResponse last_one (fold this_onResponse us s)) p
          = Resolved (acc @ items @ [last_one])" by simp
  then show ?thesis by (simp add: ms fold_settled)
qed

section \<open>Handles are allocated in every reachable state\<close>

lemma waiters_allocated_iff:
  "waiters_allocated s \<longleftrightarrow>
     (\<forall>i w. (i, w) \<in> set (pending s) \<longrightarrow>
        (\<forall>p. resolve w = ResolvePromise p \<longrightarrow> p < nextPromise s)
        \<and> (\<forall>p. reject w = RejectPromise p \<longrightarrow> p < nextPromise s)
        \<and> (\<forall>t. timer w = Some t \<longrightarrow> t < nextTimer s))"
proof -
  have "((case resolve w of ResolvePromise p \<Rightarrow> p < n | ResolveNoop \<Rightarrow> True)
          \<and> (case reject w of RejectPromise p \<Rightarrow> p < n | StreamErrorHandler k \<Rightarrow> True)
          \<and> (case timer w of Some t \<Rightarrow> t < m | None \<Rightarrow> True))
        \<longleftrightarrow> ((\<forall>p. resolve w = ResolvePromise p \<longrightarrow> p < n)
              \<and> (\<forall>p. reject w = RejectPromise p \<longrightarrow> p < n)
              \<and> (\<forall>t. timer w = Some t \<longrightarrow> t < m))" for w :: PendingRequest and n m
    by (cases "resolve w"; cases "reject w"; cases "timer w") simp_all
  then show ?thesis
    unfolding waiters_allocated_def list_all_iff by auto
qed

lemma set_delete_subset: "set (AList.delete k al) \<subseteq> set al"
  by (auto simp: AList.delete_eq)

lemma set_update_subset: "set (AList.update k v al) \<subseteq> insert (k, v) (set al)"
  by (induction al) auto

lemma in_delete: "x \<in> set (AList.delete k al) \<Longrightarrow> x \<in> set al"
  using set_delete_subset by fastforce

lemma in_update: "x \<in> set (AList.update k v al) \<Longrightarrow> x = (k, v) \<or> x \<in> set al"
  using set_update_subset by fastforce

lemma waiters_allocated_same:
  "pending s' = pending s \<Longrightarrow> nextPromise s' = nextPromise s \<Longrightarrow> nextTimer s' = nextTimer s
     \<Longrightarrow> waiters_allocated s' = waiters_allocated s"
  by (simp add: waiters_allocated_iff)

lemma waiters_allocated_simps [simp]:
  "waiters_allocated (deliver k out s) = waiters_allocated s"
  "waiters_allocated (updStream k f s) = waiters_allocated s"
  "waiters_allocated (handler k r s) = waiters_allocated s"
  "waiters_allocated (s\<lparr> written := x \<rparr>) = waiters_allocated s"
  "waiters_allocated (s\<lparr> onResponse := h \<rparr>) = waiters_allocated s"
  "waiters_allocated (s\<lparr> microtasks := ks \<rparr>) = waiters_allocated s"
  "waiters_allocated (s\<lparr> buffers := b \<rparr>) = waiters_allocated s"
  "waiters_allocated (s\<lparr> state := c \<rparr>) = waiters_allocated s"
  "waiters_allocated (s\<lparr> socket := so \<rparr>) = waiters_allocated s"
  "waiters_allocated (s\<lparr> ended := en \<rparr>) = waiters_allocated s"
  by (simp_all add: waiters_allocated_iff)

lemma waiters_allocated_subset:
  "waiters_allocated s \<Longrightarrow> set (pending s') \<subseteq> set (pending s) \<Longrightarrow>
     nextPromise s' = nextPromise s \<Longrightarrow> nextTimer s' = nextTimer s \<Longrightarrow> waiters_allocated s'"
  by (auto simp: waiters_allocated_iff)

lemma waiters_allocated_rejectAll: "waiters_allocated s \<Longrightarrow> waiters_allocated (rejectAll es s)"
proof (induction es s rule: rejectAll.induct)
  case (1 s)
  then show ?case by simp
next
  case (2 i w es s)
  let ?s1 = "case timer w of Some t \<Rightarrow> clearTimeout t s | None \<Rightarrow> s"
  let ?s2 = "rejectWaiter w (ConnectionError ''ECONNRESET'' ''Connection closed'') ?s1"
  have p: "pending ?s2 = pending s" by (simp split: option.splits)
  have "waiters_allocated (?s2\<lparr> pending := AList.delete i (pending ?s2) \<rparr>)"
    by (rule waiters_allocated_subset [OF "2.prems"])
       (auto simp: p dest: in_delete split: option.splits)
  then have "waiters_allocated (let s1 = ?s1; s2 = rejectWaiter w
                 (ConnectionError ''ECONNRESET'' ''Connection closed'') s1
               in s2\<lparr> pending := AList.delete i (pending s2) \<rparr>)"
    by (simp add: Let_def)
  from "2.IH" [OF this] show ?case by simp
qed

lemma waiters_allocated_close: "waiters_allocated s \<Longrightarrow> waiters_allocated (close s)"
  unfolding close_def Let_def
  by (rule waiters_allocated_rejectAll) (simp split: option.splits)

lemma waiters_allocated_onClose: "waiters_allocated s \<Longrightarrow> waiters_allocated (onClose s)"
  unfolding onClose_def Let_def
  by (rule waiters_allocated_rejectAll) simp

lemma waiters_allocated_finally: "waiters_allocated s \<Longrightarrow> waiters_allocated (finally' k s)"
  by (rule waiters_allocated_subset) (auto simp: finally'_def dest: in_delete)

lemma waiters_allocated_finish: "waiters_allocated s \<Longrightarrow> waiters_allocated (finish k out s)"
  by (simp add: finish_def waiters_allocated_finally)

lemma waiters_allocated_afterLoop: "waiters_allocated s \<Longrightarrow> waiters_allocated (afterLoop k s)"
  by (simp add: afterLoop_def waiters_allocated_finish split: option.splits)

lemma waiters_allocated_loop: "waiters_allocated s \<Longrightarrow> waiters_allocated (loop k s)"
  by (simp add: loop_def waiters_allocated_afterLoop split: list.splits)

lemma start_connected:
  "socket s = Some sock \<Longrightarrow> state s = connected \<Longrightarrow>
     start k s =
       (let req = request (streams s k);
            s1 = updStream k (\<lambda>st. st\<lparr> queue := [], resolver := False, error := None,
                                       done' := False \<rparr>) s;
            s2 = s1\<lparr> pending := AList.update (id' req)
                                   \<lparr> resolve = ResolveNoop, reject = StreamErrorHandler k,
                                     responses = [], timer = None \<rparr> (pending s1) \<rparr>;
            s3 = (updStream k (\<lambda>st. st\<lparr> originalOnResponse := onResponse s2 \<rparr>) s2)
                   \<lparr> onResponse := Override (id' req) k (onResponse s2) \<rparr>
        in (case stringifyThrows s3 req of
              Some err \<Rightarrow> finish k (Thrown (OtherError err)) s3
            | None \<Rightarrow>
                (case writeThrows s3 sock of
                   Some msg \<Rightarrow> finish k (Thrown (OtherError msg)) s3
                 | None \<Rightarrow> loop k (s3\<lparr> written := written s3 @ [(sock, req)] \<rparr>))))"
  by (simp add: start_def)

lemma start_not_connected:
  "socket s = None \<or> state s \<noteq> connected \<Longrightarrow>
     start k s = deliver k (Thrown NOT_CONNECTED) (updStream k (\<lambda>st. st\<lparr> gen := Completed \<rparr>) s)"
  by (simp add: start_def)

lemma waiters_allocated_start: "waiters_allocated s \<Longrightarrow> waiters_allocated (start k s)"
proof (cases "socket s = None \<or> state s \<noteq> connected")
  case True
  assume "waiters_allocated s"
  then show ?thesis by (simp add: start_not_connected [OF True])
next
  case False
  assume a: "waiters_allocated s"
  from False obtain sock where so: "socket s = Some sock" and st: "state s = connected"
    by auto
  have b: "waiters_allocated (updStream j f s\<lparr> pending := AList.update i w (pending s) \<rparr>)"
    if "resolve w = ResolveNoop" "reject w = StreamErrorHandler k" "timer w = None" for i w j f
    using a that by (auto simp: waiters_allocated_iff updStream_def dest!: in_update)
  show ?thesis
    unfolding start_connected [OF so st] Let_def
    by (auto split: option.splits intro!: waiters_allocated_finish waiters_allocated_loop simp: b)
qed

lemma waiters_allocated_generator_next: "waiters_allocated s \<Longrightarrow> waiters_allocated (generator_next k s)"
  by (simp add: generator_next_def waiters_allocated_start waiters_allocated_loop waiters_allocated_afterLoop
        split: GenState.splits)

lemma waiters_allocated_resume: "waiters_allocated s \<Longrightarrow> waiters_allocated (resume k s)"
  by (simp add: resume_def waiters_allocated_afterLoop split: GenState.splits IterResult.splits)

lemma waiters_allocated_runAll: "waiters_allocated s \<Longrightarrow> waiters_allocated (runAll ks s)"
  by (induction ks arbitrary: s) (simp_all add: waiters_allocated_resume)

lemma waiters_allocated_runMicrotasks: "waiters_allocated s \<Longrightarrow> waiters_allocated (runMicrotasks s)"
  unfolding runMicrotasks_def
  by (rule waiters_allocated_runAll) simp

lemma waiters_allocated_method: "waiters_allocated s \<Longrightarrow> waiters_allocated (onResponse_method r s)"
proof (cases "map_of (pending s) (response_id r)")
  case None
  then show "waiters_allocated s \<Longrightarrow> ?thesis" by (simp add: method_unknown)
next
  case (Some w)
  assume a: "waiters_allocated s"
  from Some have in_set: "(response_id r, w) \<in> set (pending s)" by (rule map_of_SomeD)
  show ?thesis
  proof (cases "isTerminal r")
    case False
    show ?thesis
      using a in_set
      by (auto simp: method_item [OF Some False] waiters_allocated_iff dest!: in_update)
  next
    case True
    show ?thesis
      using a
      by (auto simp: method_terminal [OF Some True] waiters_allocated_iff Let_def settle_def
            dest!: in_delete split: ResolveFn.splits)
  qed
qed

lemma waiters_allocated_dispatch: "waiters_allocated s \<Longrightarrow> waiters_allocated (dispatch h r s)"
  by (induction h) (simp_all add: waiters_allocated_method)

lemma waiters_allocated_onData_loop: "waiters_allocated s \<Longrightarrow> waiters_allocated (snd (onData_loop parse b s))"
proof (induction parse b s rule: onData_loop.induct)
  case (1 parse buffer s)
  show ?case
  proof (cases "indexOf buffer newline")
    case None
    with "1.prems" show ?thesis by (subst onData_loop.simps) simp
  next
    case (Some i)
    let ?s' = "if trim (take i buffer) \<noteq> []
               then (case parse (take i buffer) of
                       Some response \<Rightarrow> this_onResponse response s | None \<Rightarrow> s)
               else s"
    have "waiters_allocated ?s'"
      using "1.prems" by (simp add: this_onResponse_def waiters_allocated_dispatch split: option.splits)
    from "1.IH" [OF Some refl refl this] show ?thesis
      by (subst onData_loop.simps) (simp add: Some Let_def)
  qed
qed

lemma waiters_allocated_onData: "waiters_allocated s \<Longrightarrow> waiters_allocated (onData parse sock d s)"
  using waiters_allocated_onData_loop [of s parse "buffers s sock @ d"]
  by (simp add: onData_def Let_def)

lemma waiters_allocated_send: "waiters_allocated s \<Longrightarrow> waiters_allocated (snd (send req tmo s))"
proof -
  assume a: "waiters_allocated s"
  let ?w = "\<lparr> resolve = ResolvePromise (nextPromise s), reject = RejectPromise (nextPromise s),
              responses = [], timer = Some (nextTimer s) \<rparr>"
  have u: "set (AList.update (id' req) ?w (pending s)) \<subseteq> insert (id' req, ?w) (set (pending s))"
    by (rule set_update_subset)
  have d: "set (AList.delete (id' req) (AList.update (id' req) ?w (pending s)))
             \<subseteq> set (pending s)"
    by (simp add: AList.delete_update_same set_delete_subset)
  show ?thesis
    using a
    by (auto simp: send_def Let_def waiters_allocated_iff settle_def clearTimeout_def
          AList.delete_update_same dest!: in_update in_delete split: option.splits)
       (blast intro: less_SucI)+
qed

lemma waiters_allocated_timerFires: "waiters_allocated s \<Longrightarrow> waiters_allocated (timerFires t s)"
  by (auto simp: timerFires_def waiters_allocated_iff settle_def clearTimeout_def
        dest!: in_delete split: option.splits)

lemma waiters_allocated_exec: "waiters_allocated s \<Longrightarrow> waiters_allocated (exec parse x s)"
proof (cases x)
  case (Send req tmo)
  then show "waiters_allocated s \<Longrightarrow> ?thesis" by (simp add: waiters_allocated_send)
next
  case (SocketData sock d)
  then show "waiters_allocated s \<Longrightarrow> ?thesis"
    by (simp add: socket_data_def waiters_allocated_runMicrotasks waiters_allocated_onData)
qed (simp_all add: waiters_allocated_runMicrotasks waiters_allocated_close waiters_allocated_onClose
      close_call_def socket_close_def waiters_allocated_timerFires waiters_allocated_generator_next
      waiters_allocated_same [of "snd (generateId _)"] waiters_allocated_same [of "snd (connect _ _)"]
      waiters_allocated_same [of "connectTimerFires _ _"] waiters_allocated_same [of "socket_open _ _ _"]
      waiters_allocated_same [of "socket_error _ _ _"] waiters_allocated_same [of "snd (stream _ _)"])

lemma cleared_refl [simp]: "timers_only_cleared s s"
  by (simp add: timers_only_cleared_def)

lemma cleared_same: "timers s' = timers s \<Longrightarrow> timers_only_cleared s s'"
  by (simp add: timers_only_cleared_def)

lemma cleared_trans:
  "timers_only_cleared s s' \<Longrightarrow> timers_only_cleared s' s'' \<Longrightarrow> timers_only_cleared s s''"
  unfolding timers_only_cleared_def by metis

lemma cleared_clearTimeout: "timers_only_cleared s (clearTimeout t s)"
  by (simp add: timers_only_cleared_def clearTimeout_def)

lemma cleared_method: "timers_only_cleared s (onResponse_method r s)"
  by (cases "map_of (pending s) (response_id r)"; cases "isTerminal r")
     (simp_all add: method_unknown method_item method_terminal Let_def settle_def
        timers_only_cleared_def split: ResolveFn.splits option.splits)

lemma cleared_dispatch: "timers_only_cleared s (dispatch h r s)"
  by (induction h) (simp_all add: cleared_method cleared_same)

lemma cleared_onData_loop: "timers_only_cleared s (snd (onData_loop parse b s))"
proof (induction parse b s rule: onData_loop.induct)
  case (1 parse buffer s)
  show ?case
  proof (cases "indexOf buffer newline")
    case None
    then show ?thesis by (subst onData_loop.simps) simp
  next
    case (Some i)
    let ?s' = "if trim (take i buffer) \<noteq> []
               then (case parse (take i buffer) of
                       Some response \<Rightarrow> this_onResponse response s | None \<Rightarrow> s)
               else s"
    have a: "timers_only_cleared s ?s'"
      by (simp add: this_onResponse_def cleared_dispatch split: option.splits)
    have "onData_loop parse buffer s = onData_loop parse (drop (i + 1) buffer) ?s'"
      by (subst onData_loop.simps) (simp add: Some Let_def)
    with cleared_trans [OF a "1.IH" [OF Some refl refl]] show ?thesis by simp
  qed
qed

lemma cleared_rejectAll: "timers_only_cleared s (rejectAll es s)"
proof (induction es arbitrary: s)
  case Nil
  then show ?case by simp
next
  case (Cons e es)
  obtain i w where e: "e = (i, w)" by (cases e)
  let ?s' = "(rejectWaiter w RESET (case timer w of Some t \<Rightarrow> clearTimeout t s | None \<Rightarrow> s))
               \<lparr> pending := AList.delete i (pending s) \<rparr>"
  have "timers_only_cleared s ?s'"
    by (simp add: timers_only_cleared_def clearTimeout_def split: option.splits)
  from cleared_trans [OF this Cons.IH [of ?s']] show ?case
    unfolding e by (simp add: Let_def RESET_def split: option.splits)
qed

lemma timers_allocated_cleared:
  "timers_allocated s \<Longrightarrow> timers_only_cleared s s' \<Longrightarrow>
   nextPromise s' = nextPromise s \<Longrightarrow> nextTimer s' = nextTimer s \<Longrightarrow> timers_allocated s'"
  unfolding timers_allocated_def timers_only_cleared_def
  by (metis option.distinct(1))

lemma timers_allocated_send: "timers_allocated s \<Longrightarrow> timers_allocated (snd (send req tmo s))"
  by (auto simp: send_def Let_def timers_allocated_def settle_def clearTimeout_def
        split: option.splits if_splits)
     (blast intro: less_SucI)+

lemma timers_allocated_timerFires: "timers_allocated s \<Longrightarrow> timers_allocated (timerFires t s)"
  by (auto simp: timerFires_def timers_allocated_def settle_def clearTimeout_def
        split: option.splits if_splits)

lemma timers_allocated_exec: "timers_allocated s \<Longrightarrow> timers_allocated (exec parse x s)"
proof (cases x)
  case (Send req tmo)
  then show "timers_allocated s \<Longrightarrow> ?thesis" by (simp add: timers_allocated_send)
next
  case (TimerFires t)
  then show "timers_allocated s \<Longrightarrow> ?thesis" by (simp add: timers_allocated_timerFires)
next
  case (SocketData sock d)
  assume a: "timers_allocated s"
  have "timers_only_cleared s (socket_data parse sock d s)"
    using cleared_onData_loop [of s parse "buffers s sock @ d"]
    by (simp add: socket_data_def onData_def Let_def timers_only_cleared_def)
  from timers_allocated_cleared [OF a this] SocketData show ?thesis by simp
next
  case Close
  assume a: "timers_allocated s"
  have "timers_only_cleared s (close_call s)"
    using cleared_rejectAll [of "(case socket s of
                Some k \<Rightarrow> s\<lparr> ended := ended s @ [k], socket := None \<rparr>
              | None \<Rightarrow> s)\<lparr> state := disconnected \<rparr>" "pending s"]
    by (simp add: close_call_def close_def Let_def timers_only_cleared_def split: option.splits)
  from timers_allocated_cleared [OF a this] Close show ?thesis by simp
next
  case SocketClose
  assume a: "timers_allocated s"
  have "timers_only_cleared s (socket_close s)"
    using cleared_rejectAll [of "s\<lparr> socket := None, state := disconnected \<rparr>" "pending s"]
    by (simp add: socket_close_def onClose_def Let_def timers_only_cleared_def)
  from timers_allocated_cleared [OF a this] SocketClose show ?thesis by simp
qed (simp_all add: timers_allocated_def)

lemma allocated_exec: "allocated s \<Longrightarrow> allocated (exec parse x s)"
  by (simp add: allocated_def waiters_allocated_exec timers_allocated_exec)

lemma allocated_run: "allocated s \<Longrightarrow> allocated (run parse xs s)"
  by (induction xs arbitrary: s) (simp_all add: allocated_exec)

lemma allocated_reachable: "allocated (run parse xs newTransport)"
  by (rule allocated_run)
     (simp add: allocated_def waiters_allocated_iff timers_allocated_def newTransport_def)

lemma allocated_iff:
  "allocated s \<longleftrightarrow>
     (\<forall>i w. (i, w) \<in> set (pending s) \<longrightarrow>
        (\<forall>p. resolve w = ResolvePromise p \<longrightarrow> p < nextPromise s)
        \<and> (\<forall>p. reject w = RejectPromise p \<longrightarrow> p < nextPromise s)
        \<and> (\<forall>t. timer w = Some t \<longrightarrow> t < nextTimer s))
     \<and> (\<forall>u i q tmo. timers s u = Some (i, q, tmo) \<longrightarrow> q < nextPromise s \<and> u < nextTimer s)"
  by (simp add: allocated_def waiters_allocated_iff timers_allocated_def)

section \<open>A settled promise stays as it is\<close>

lemma rejectWaiter_settled:
  "promises s p \<noteq> Pending \<Longrightarrow> promises (rejectWaiter w e s) p = promises s p"
  by (simp add: rejectWaiter_def settle_settled split: RejectFn.splits)

lemma rejectAll_settled:
  "promises s p \<noteq> Pending \<Longrightarrow> promises (rejectAll es s) p = promises s p"
proof (induction es s rule: rejectAll.induct)
  case (1 s)
  then show ?case by simp
next
  case (2 i w es s)
  let ?s' = "let s1 = (case timer w of Some t \<Rightarrow> clearTimeout t s | None \<Rightarrow> s);
                 s2 = rejectWaiter w (ConnectionError ''ECONNRESET'' ''Connection closed'') s1
             in s2\<lparr> pending := AList.delete i (pending s2) \<rparr>"
  have e: "promises ?s' p = promises s p"
    using "2.prems" by (simp add: Let_def rejectWaiter_settled split: option.splits)
  with "2.prems" have "promises ?s' p \<noteq> Pending" by simp
  from "2.IH" [OF this] e show ?case by simp
qed




lemma filter_append_split:
  "filter P ms = a @ b \<Longrightarrow> \<exists>us vs. ms = us @ vs \<and> filter P us = a \<and> filter P vs = b"
proof (induction ms arbitrary: a)
  case Nil
  then show ?case by simp
next
  case (Cons m ms)
  show ?case
  proof (cases "P m")
    case False
    with Cons.prems have "filter P ms = a @ b" by simp
    from Cons.IH [OF this] obtain us vs
      where "ms = us @ vs" "filter P us = a" "filter P vs = b" by blast
    with False have "m # ms = (m # us) @ vs \<and> filter P (m # us) = a \<and> filter P vs = b"
      by simp
    then show ?thesis by blast
  next
    case True
    show ?thesis
    proof (cases a)
      case Nil
      with Cons.prems have "m # ms = [] @ (m # ms) \<and> filter P [] = a \<and> filter P (m # ms) = b"
        by simp
      then show ?thesis by blast
    next
      case (Cons x a')
      with True Cons.prems have mx: "m = x" and "filter P ms = a' @ b" by simp_all
      from Cons.IH [OF this(2)] obtain us vs
        where "ms = us @ vs" "filter P us = a'" "filter P vs = b" by blast
      with True mx Cons
      have "m # ms = (m # us) @ vs \<and> filter P (m # us) = a \<and> filter P vs = b" by simp
      then show ?thesis by blast
    qed
  qed
qed

section \<open>Timers are armed by \<^verbatim>\<open>send\<close> only\<close>

lemma timerFires_armed:
  "timers s t = Some (i, p, tmo) \<Longrightarrow>
     timerFires t s
       = settle p (Rejected (TimeoutError (''Request '' @ i @ '' timed out after ''
                                            @ Number_toString tmo @ ''ms'')))
           (s\<lparr> timers := (timers s)(t := None), pending := AList.delete i (pending s) \<rparr>)"
  by (simp add: timerFires_def clearTimeout_def)

lemma cleared_timerFires: "timers_only_cleared s (timerFires t s)"
  by (simp add: timerFires_def timers_only_cleared_def settle_def clearTimeout_def
        split: option.splits)

lemma cleared_close_call: "timers_only_cleared s (close_call s)"
  using cleared_rejectAll [of "(case socket s of
              Some k \<Rightarrow> s\<lparr> ended := ended s @ [k], socket := None \<rparr>
            | None \<Rightarrow> s)\<lparr> state := disconnected \<rparr>" "pending s"]
  by (simp add: close_call_def close_def Let_def timers_only_cleared_def split: option.splits)

lemma cleared_socket_close: "timers_only_cleared s (socket_close s)"
  using cleared_rejectAll [of "s\<lparr> socket := None, state := disconnected \<rparr>" "pending s"]
  by (simp add: socket_close_def onClose_def Let_def timers_only_cleared_def)

lemma cleared_socket_data: "timers_only_cleared s (socket_data parse sock d s)"
  using cleared_onData_loop [of s parse "buffers s sock @ d"]
  by (simp add: socket_data_def onData_def Let_def timers_only_cleared_def)

lemma send_next:
  "nextPromise s \<le> nextPromise (snd (send req tmo s))
   \<and> nextTimer s \<le> nextTimer (snd (send req tmo s))"
  by (simp add: send_def Let_def split: option.splits)

lemma send_old_timer: "u < nextTimer s \<Longrightarrow> timers (snd (send req tmo s)) u = timers s u"
  by (simp add: send_def Let_def settle_def clearTimeout_def split: option.splits)

lemma send_old_promise: "q < nextPromise s \<Longrightarrow> promises (snd (send req tmo s)) q = promises s q"
  by (simp add: send_def Let_def settle_def clearTimeout_def split: option.splits)

lemma old_exec:
  "nextPromise s \<le> nextPromise (exec parse x s) \<and> nextTimer s \<le> nextTimer (exec parse x s)
   \<and> (u < nextTimer s \<longrightarrow>
        timers (exec parse x s) u = None \<or> timers (exec parse x s) u = timers s u)"
proof (cases x)
  case (Send req tmo)
  then show ?thesis using send_next [of s req tmo] by (simp add: send_old_timer)
next
  case (TimerFires t)
  then show ?thesis using cleared_timerFires [of s t] by (simp add: timers_only_cleared_def)
next
  case (SocketData sock d)
  then show ?thesis
    using cleared_socket_data [of s parse sock d] by (simp add: timers_only_cleared_def)
next
  case Close
  then show ?thesis using cleared_close_call [of s] by (simp add: timers_only_cleared_def)
next
  case SocketClose
  then show ?thesis using cleared_socket_close [of s] by (simp add: timers_only_cleared_def)
qed simp_all



lemma cleared_exec:
  assumes "\<And>req tmo. x \<noteq> Send req tmo"
  shows "timers_only_cleared s (exec parse x s)"
proof (cases x)
  case (Send req tmo)
  from assms [of req tmo] Send show ?thesis by simp
qed (simp_all add: cleared_same cleared_timerFires cleared_close_call cleared_socket_close
       cleared_socket_data)



text \<open>
  A request that \<^verbatim>\<open>JSON.stringify\<close> rejects: the promise is rejected with the error thrown,
  nothing is written, and the waiter and the timer that were registered before stay.
  When the timer fires later it finds the promise settled and only deletes the entry.
\<close>

lemma send_unserialisable:
  assumes "socket s = Some k" "state s = connected" "stringifyThrows s req = Some err"
  shows "fst (send req timeout_opt s) = Inr (nextPromise s)"
    and "promises (snd (send req timeout_opt s)) (nextPromise s) = Rejected (OtherError err)"
    and "map_of (pending (snd (send req timeout_opt s))) (id' req)
           = Some \<lparr> resolve = ResolvePromise (nextPromise s),
                    reject = RejectPromise (nextPromise s), responses = [],
                    timer = Some (nextTimer s) \<rparr>"
    and "timers (snd (send req timeout_opt s)) (nextTimer s)
           = Some (id' req, nextPromise s, case timeout_opt of None \<Rightarrow> 30000 | Some t \<Rightarrow> t)"
    and "written (snd (send req timeout_opt s)) = written s"
    and "promises (timerFires (nextTimer s) (snd (send req timeout_opt s))) (nextPromise s)
           = Rejected (OtherError err)"
    and "map_of (pending (timerFires (nextTimer s) (snd (send req timeout_opt s)))) (id' req)
           = None"
  using assms
  by (simp_all add: send_def Let_def settle_def timerFires_def clearTimeout_def
        AList.update_conv' AList.delete_conv')

section \<open>Who holds a promise\<close>

lemma narrows_refl [simp]: "narrows s s"
  by (auto simp: narrows_def)

lemma narrows_trans:
  assumes a: "narrows s s'" and b: "narrows s' s''"
  shows "narrows s s''"
proof -
  have d: "distinct (map fst (pending s)) \<longrightarrow> distinct (map fst (pending s''))"
    using a b by (simp add: narrows_def)
  have e: "(\<exists>w0. (i, w0) \<in> set (pending s) \<and> resolve w0 = resolve w \<and> reject w0 = reject w)
        \<or> (\<forall>p. \<not> holds w p)" if "(i, w) \<in> set (pending s'')" for i w
  proof -
    from b that consider
        (old) w1 where "(i, w1) \<in> set (pending s')" "resolve w1 = resolve w"
          "reject w1 = reject w"
      | (none) "\<forall>p. \<not> holds w p"
      unfolding narrows_def by blast
    then show ?thesis
    proof cases
      case old
      from a old(1) consider
          (older) w0 where "(i, w0) \<in> set (pending s)" "resolve w0 = resolve w1"
            "reject w0 = reject w1"
        | (nothing) "\<forall>p. \<not> holds w1 p"
        unfolding narrows_def by blast
      then show ?thesis
      proof cases
        case older
        with old show ?thesis by auto
      next
        case nothing
        with old show ?thesis by (simp add: holds_def)
      qed
    next
      case none
      then show ?thesis by simp
    qed
  qed
  from d e show ?thesis unfolding narrows_def by blast
qed

lemma narrows_same: "pending s' = pending s \<Longrightarrow> narrows s s'"
  by (auto simp: narrows_def)

lemma narrows_cong: "pending t = pending s \<Longrightarrow> narrows s t' \<Longrightarrow> narrows t t'"
  by (simp add: narrows_def)

lemma narrows_delete: "pending s' = AList.delete k (pending s) \<Longrightarrow> narrows s s'"
  by (auto simp: narrows_def AList.distinct_delete dest!: in_delete)

lemma narrows_update:
  "pending s' = AList.update k w (pending s) \<Longrightarrow>
   (\<exists>w0. (k, w0) \<in> set (pending s) \<and> resolve w0 = resolve w \<and> reject w0 = reject w)
     \<or> (\<forall>p. \<not> holds w p) \<Longrightarrow> narrows s s'"
  by (auto simp: narrows_def AList.distinct_update dest!: in_update)

lemma narrows_method: "narrows s (onResponse_method r s)"
proof (cases "map_of (pending s) (response_id r)")
  case None
  then show ?thesis by (simp add: method_unknown)
next
  case (Some w)
  then have in_set: "(response_id r, w) \<in> set (pending s)" by (rule map_of_SomeD)
  show ?thesis
  proof (cases "isTerminal r")
    case False
    show ?thesis
      by (rule narrows_update [where k = "response_id r"
                and w = "w\<lparr> responses := responses w @ [r] \<rparr>"])
         (use in_set in \<open>auto simp: method_item [OF Some False]\<close>)
  next
    case True
    show ?thesis
      by (rule narrows_delete [where k = "response_id r"])
         (simp add: method_terminal [OF Some True] Let_def split: ResolveFn.splits)
  qed
qed

lemma narrows_dispatch: "narrows s (dispatch h r s)"
  by (induction h) (simp_all add: narrows_method narrows_same)

lemma narrows_onData_loop: "narrows s (snd (onData_loop parse b s))"
proof (induction parse b s rule: onData_loop.induct)
  case (1 parse buffer s)
  show ?case
  proof (cases "indexOf buffer newline")
    case None
    then show ?thesis by (subst onData_loop.simps) simp
  next
    case (Some i)
    let ?s' = "if trim (take i buffer) \<noteq> []
               then (case parse (take i buffer) of
                       Some response \<Rightarrow> this_onResponse response s | None \<Rightarrow> s)
               else s"
    have a: "narrows s ?s'"
      by (simp add: this_onResponse_def narrows_dispatch split: option.splits)
    have "onData_loop parse buffer s = onData_loop parse (drop (i + 1) buffer) ?s'"
      by (subst onData_loop.simps) (simp add: Some Let_def)
    with narrows_trans [OF a "1.IH" [OF Some refl refl]] show ?thesis by simp
  qed
qed

lemma narrows_rejectAll: "narrows s (rejectAll es s)"
proof (induction es arbitrary: s)
  case Nil
  then show ?case by simp
next
  case (Cons e es)
  obtain i w where e: "e = (i, w)" by (cases e)
  let ?s' = "(rejectWaiter w RESET (case timer w of Some t \<Rightarrow> clearTimeout t s | None \<Rightarrow> s))
               \<lparr> pending := AList.delete i (pending s) \<rparr>"
  have "narrows s ?s'"
    by (rule narrows_delete [where k = i]) simp
  from narrows_trans [OF this Cons.IH [of ?s']] show ?case
    unfolding e by (simp add: Let_def RESET_def split: option.splits)
qed

lemma narrows_close: "narrows s (close s)"
  unfolding close_def Let_def
  by (rule narrows_cong [OF _ narrows_rejectAll]) (simp split: option.splits)

lemma narrows_onClose: "narrows s (onClose s)"
  unfolding onClose_def Let_def
  by (rule narrows_cong [OF _ narrows_rejectAll]) simp

lemma narrows_finish: "narrows s (finish k out s)"
  by (rule narrows_delete [where k = "id' (request (streams s k))"])
     (simp add: finish_def finally'_def deliver_def updStream_def)

lemma narrows_afterLoop: "narrows s (afterLoop k s)"
  by (simp add: afterLoop_def narrows_finish split: option.splits)

lemma narrows_loop: "narrows s (loop k s)"
  by (simp add: loop_def narrows_afterLoop narrows_same split: list.splits)

lemma narrows_start: "narrows s (start k s)"
proof (cases "socket s = None \<or> state s \<noteq> connected")
  case True
  show ?thesis by (simp add: start_not_connected [OF True] narrows_same)
next
  case False
  then obtain sock where so: "socket s = Some sock" and st: "state s = connected"
    by auto
  let ?req = "request (streams s k)"
  let ?w = "\<lparr> resolve = ResolveNoop, reject = StreamErrorHandler k,
              responses = [], timer = None \<rparr>"
  have b: "narrows s s'" if "pending s' = AList.update (id' ?req) ?w (pending s)" for s'
    by (rule narrows_update [OF that]) (simp add: holds_def)
  have fin: "narrows s (finish k out s')" if "narrows s s'" for s' out
    using narrows_trans [OF that narrows_finish] .
  have lp: "narrows s (loop k s')" if "narrows s s'" for s'
    using narrows_trans [OF that narrows_loop] .
  show ?thesis
    unfolding start_connected [OF so st] Let_def
    by (simp split: option.splits; intro conjI impI allI; (rule fin | rule lp); rule b; simp)
qed

lemma narrows_generator_next: "narrows s (generator_next k s)"
  by (simp add: generator_next_def narrows_start narrows_loop narrows_afterLoop narrows_same
        split: GenState.splits)

lemma narrows_resume: "narrows s (resume k s)"
  by (simp add: resume_def narrows_afterLoop narrows_same split: GenState.splits IterResult.splits)

lemma narrows_runAll: "narrows s (runAll ks s)"
proof (induction ks arbitrary: s)
  case Nil
  show ?case by simp
next
  case (Cons k ks)
  from narrows_trans [OF narrows_resume Cons.IH] show ?case by simp
qed

lemma narrows_runMicrotasks: "narrows s (runMicrotasks s)"
  unfolding runMicrotasks_def
  by (rule narrows_cong [OF _ narrows_runAll]) simp

lemma narrows_timerFires: "narrows s (timerFires t s)"
proof (cases "timers s t")
  case None
  then show ?thesis by (simp add: timerFires_def)
next
  case (Some x)
  obtain i p tmo where x: "x = (i, p, tmo)" by (cases x)
  show ?thesis
    by (rule narrows_delete [where k = i]) (simp add: timerFires_def Some x)
qed

lemma narrows_exec:
  assumes "\<And>req tmo. x \<noteq> Send req tmo"
  shows "narrows s (exec parse x s)"
proof (cases x)
  case (Send req tmo)
  from assms [of req tmo] Send show ?thesis by simp
next
  case (SocketData sock d)
  have "narrows s (onData parse sock d s)"
    using narrows_onData_loop [of s parse "buffers s sock @ d"]
    by (simp add: onData_def Let_def narrows_def)
  from narrows_trans [OF this narrows_runMicrotasks] SocketData show ?thesis
    by (simp add: socket_data_def)
next
  case Close
  from narrows_trans [OF narrows_close narrows_runMicrotasks] Close show ?thesis
    by (simp add: close_call_def)
next
  case SocketClose
  from narrows_trans [OF narrows_onClose narrows_runMicrotasks] SocketClose show ?thesis
    by (simp add: socket_close_def)
qed (simp_all add: narrows_same narrows_timerFires narrows_generator_next)


lemma exclusive_step:
  assumes e: "exclusive s" and n: "narrows s s'" and c: "timers_only_cleared s s'"
  shows "exclusive s'"
proof -
  have d: "distinct (map fst (pending s'))"
    using e n by (simp add: exclusive_def narrows_def)
  have anc: "\<exists>w0. (i, w0) \<in> set (pending s) \<and> holds w0 p"
    if "(i, w) \<in> set (pending s')" "holds w p" for i w p
    using n that unfolding narrows_def holds_def by metis
  have h: "i = j"
    if "(i, w) \<in> set (pending s')" "(j, v) \<in> set (pending s')" "holds w p" "holds v p"
    for i w j v p
  proof -
    from anc [OF that(1,3)] obtain w0 where w0: "(i, w0) \<in> set (pending s)" "holds w0 p"
      by blast
    from anc [OF that(2,4)] obtain v0 where v0: "(j, v0) \<in> set (pending s)" "holds v0 p"
      by blast
    from e w0 v0 show ?thesis unfolding exclusive_def by blast
  qed
  have t: "u = u'"
    if "timers s' u = Some (i, p, tmo)" "timers s' u' = Some (i', p, tmo')"
    for u u' i i' p tmo tmo'
  proof -
    from c that have "timers s u = Some (i, p, tmo)" "timers s u' = Some (i', p, tmo')"
      unfolding timers_only_cleared_def by (metis option.distinct(1))+
    with e show ?thesis unfolding exclusive_def by blast
  qed
  from d h t show ?thesis unfolding exclusive_def by blast
qed

lemma exclusive_register:
  assumes al: "allocated s" and e: "exclusive s"
      and p: "pending s' = AList.update X \<lparr> resolve = ResolvePromise (nextPromise s),
                 reject = RejectPromise (nextPromise s), responses = [], timer = t0 \<rparr>
               (pending s)"
      and t: "timers s' = (timers s)(nextTimer s := Some (X, nextPromise s, tmo))"
  shows "exclusive s'"
proof -
  let ?w = "\<lparr> resolve = ResolvePromise (nextPromise s),
               reject = RejectPromise (nextPromise s), responses = [], timer = t0 \<rparr>"
  have d: "distinct (map fst (pending s'))"
    using e by (simp add: p exclusive_def AList.distinct_update)
  have old: "q < nextPromise s" if "(i, w) \<in> set (pending s)" "holds w q" for i w q
    using al that unfolding allocated_iff holds_def by blast
  have new: "q = nextPromise s" if "holds ?w q" for q
    using that by (auto simp: holds_def)
  have h: "i = j"
    if "(i, w) \<in> set (pending s')" "(j, v) \<in> set (pending s')" "holds w q" "holds v q"
    for i w j v q
  proof -
    from that(1) have a: "(i, w) = (X, ?w) \<or> (i, w) \<in> set (pending s)"
      unfolding p by (rule in_update)
    from that(2) have b: "(j, v) = (X, ?w) \<or> (j, v) \<in> set (pending s)"
      unfolding p by (rule in_update)
    from a b show ?thesis
    proof (elim disjE)
      assume "(i, w) = (X, ?w)" "(j, v) = (X, ?w)"
      then show ?thesis by simp
    next
      assume x: "(i, w) = (X, ?w)" and y: "(j, v) \<in> set (pending s)"
      from x that(3) have "q = nextPromise s" using new by simp
      with old [OF y that(4)] show ?thesis by simp
    next
      assume x: "(i, w) \<in> set (pending s)" and y: "(j, v) = (X, ?w)"
      from y that(4) have "q = nextPromise s" using new by simp
      with old [OF x that(3)] show ?thesis by simp
    next
      assume "(i, w) \<in> set (pending s)" "(j, v) \<in> set (pending s)"
      with e that(3,4) show ?thesis unfolding exclusive_def by blast
    qed
  qed
  have to: "q < nextPromise s \<and> u < nextTimer s" if "timers s u = Some (i, q, m)" for u i q m
    using al that unfolding allocated_iff by blast
  have tn: "u = u'"
    if "timers s' u = Some (i, q, m)" "timers s' u' = Some (i', q, m')" for u u' i i' q m m'
  proof (cases "u = nextTimer s"; cases "u' = nextTimer s")
    assume "u = nextTimer s" "u' = nextTimer s"
    then show ?thesis by simp
  next
    assume a: "u = nextTimer s" "u' \<noteq> nextTimer s"
    with that have "q = nextPromise s" "timers s u' = Some (i', q, m')" by (simp_all add: t)
    with to [of u' i' q m'] show ?thesis by simp
  next
    assume a: "u \<noteq> nextTimer s" "u' = nextTimer s"
    with that have "q = nextPromise s" "timers s u = Some (i, q, m)" by (simp_all add: t)
    with to [of u i q m] show ?thesis by simp
  next
    assume a: "u \<noteq> nextTimer s" "u' \<noteq> nextTimer s"
    with that have "timers s u = Some (i, q, m)" "timers s u' = Some (i', q, m')"
      by (simp_all add: t)
    with e show ?thesis unfolding exclusive_def by blast
  qed
  from d h tn show ?thesis unfolding exclusive_def by blast
qed

lemma exclusive_send:
  assumes al: "allocated s" and e: "exclusive s"
  shows "exclusive (snd (send req tmo s))"
proof (cases "socket s = None \<or> state s \<noteq> connected")
  case True
  with e show ?thesis by (auto simp: send_def)
next
  case False
  let ?w = "\<lparr> resolve = ResolvePromise (nextPromise s),
               reject = RejectPromise (nextPromise s), responses = [],
               timer = Some (nextTimer s) \<rparr>"
  let ?tmo = "case tmo of None \<Rightarrow> 30000 | Some t \<Rightarrow> t"
  let ?s1 = "s\<lparr> promises := (promises s)(nextPromise s := Pending),
                nextPromise := nextPromise s + 1,
                timers := (timers s)(nextTimer s := Some (id' req, nextPromise s, ?tmo)),
                nextTimer := nextTimer s + 1,
                pending := AList.update (id' req) ?w (pending s) \<rparr>"
  have r: "exclusive s'"
    if "pending s' = pending ?s1" "timers s' = timers ?s1" for s'
    by (rule exclusive_register [OF al e, where X = "id' req" and ?t0.0 = "Some (nextTimer s)"
          and tmo = ?tmo]) (simp_all add: that)
  have s1: "exclusive ?s1" by (rule r) simp_all
  show ?thesis
  proof (cases "stringifyThrows s req")
    case (Some err)
    with False show ?thesis by (auto simp: send_def Let_def intro!: r)
  next
    case None
    show ?thesis
    proof (cases "writeThrows s (the (socket s))")
      case None
      with False \<open>stringifyThrows s req = None\<close> show ?thesis
        by (auto simp: send_def Let_def intro!: r)
    next
      case (Some msg)
      let ?s2 = "settle (nextPromise s) (Rejected (ConnectionError ''EIO'' msg))
                   (clearTimeout (nextTimer s)
                      (?s1\<lparr> pending := AList.delete (id' req) (pending ?s1) \<rparr>))"
      have "narrows ?s1 ?s2" by (rule narrows_delete [where k = "id' req"]) simp
      moreover have "timers_only_cleared ?s1 ?s2"
        by (simp add: timers_only_cleared_def clearTimeout_def)
      ultimately have "exclusive ?s2" by (rule exclusive_step [OF s1])
      with False Some \<open>stringifyThrows s req = None\<close> show ?thesis
        by (auto simp: send_def Let_def)
    qed
  qed
qed

lemma exclusive_exec:
  assumes al: "allocated s" and e: "exclusive s"
  shows "exclusive (exec parse x s)"
proof (cases "\<exists>req tmo. x = Send req tmo")
  case True
  then show ?thesis using exclusive_send [OF al e] by auto
next
  case False
  then have n: "\<And>req tmo. x \<noteq> Send req tmo" by simp
  from exclusive_step [OF e narrows_exec [OF n] cleared_exec [OF n]] show ?thesis .
qed

lemma exclusive_run: "allocated s \<Longrightarrow> exclusive s \<Longrightarrow> exclusive (run parse xs s)"
  by (induction xs arbitrary: s) (simp_all add: exclusive_exec allocated_exec)

lemma exclusive_reachable: "exclusive (run parse xs newTransport)"
  by (rule exclusive_run [OF allocated_reachable [of parse "[]", simplified]])
     (simp add: exclusive_def newTransport_def)

lemma unheld_method:
  assumes u: "unheld s p"
  shows "unheld (onResponse_method r s) p \<and> promises (onResponse_method r s) p = promises s p"
proof (cases "map_of (pending s) (response_id r)")
  case None
  with u show ?thesis by (simp add: method_unknown)
next
  case (Some w)
  then have "(response_id r, w) \<in> set (pending s)" by (rule map_of_SomeD)
  with u have w: "resolve w \<noteq> ResolvePromise p" "reject w \<noteq> RejectPromise p"
    by (auto simp: unheld_def)
  show ?thesis
  proof (cases "isTerminal r")
    case False
    show ?thesis
      using u w by (auto simp: method_item [OF Some False] unheld_def dest!: in_update)
  next
    case True
    show ?thesis
      using u w
      by (auto simp: method_terminal [OF Some True] unheld_def Let_def settle_def
            dest!: in_delete split: ResolveFn.splits)
  qed
qed

lemma unheld_handler: "unheld (handler k r s) p = unheld s p"
  by (simp add: unheld_def)

lemma unheld_dispatch:
  "unheld s p \<Longrightarrow> unheld (dispatch h r s) p \<and> promises (dispatch h r s) p = promises s p"
proof (induction h)
  case Proto
  then show ?case using unheld_method [of s p r] by simp
next
  case (Override i k h)
  then show ?case by (simp add: unheld_handler)
qed

lemma unheld_fold:
  "unheld s p \<Longrightarrow> promises (fold this_onResponse rs s) p = promises s p"
  by (induction rs arbitrary: s) (simp_all add: this_onResponse_def unheld_dispatch)

lemma unheld_rejectAll:
  "\<forall>(i, w)\<in>set es. reject w \<noteq> RejectPromise p \<Longrightarrow>
     promises (rejectAll es s) p = promises s p"
proof (induction es s rule: rejectAll.induct)
  case (1 s)
  then show ?case by simp
next
  case (2 i w es s)
  let ?s' = "let s1 = (case timer w of Some t \<Rightarrow> clearTimeout t s | None \<Rightarrow> s);
                 s2 = rejectWaiter w (ConnectionError ''ECONNRESET'' ''Connection closed'') s1
             in s2\<lparr> pending := AList.delete i (pending s2) \<rparr>"
  from "2.prems" have "reject w \<noteq> RejectPromise p" by simp
  then have e: "promises ?s' p = promises s p"
    by (auto simp: Let_def rejectWaiter_def settle_def split: option.splits RejectFn.splits)
  from "2.prems" have "\<forall>(i, w)\<in>set es. reject w \<noteq> RejectPromise p" by simp
  from "2.IH" [OF this] e show ?case by simp
qed

lemma unheld_close: "unheld s p \<Longrightarrow> promises (close s) p = promises s p"
proof -
  assume "unheld s p"
  then have "\<forall>(i, w)\<in>set (pending s). reject w \<noteq> RejectPromise p"
    by (auto simp: unheld_def)
  then show ?thesis
    by (simp add: close_def Let_def unheld_rejectAll split: option.splits)
qed



lemma unheld_onClose: "unheld s p \<Longrightarrow> promises (onClose s) p = promises s p"
proof -
  assume "unheld s p"
  then have "\<forall>(i, w)\<in>set (pending s). reject w \<noteq> RejectPromise p"
    by (auto simp: unheld_def)
  then show ?thesis
    by (simp add: onClose_def Let_def unheld_rejectAll)
qed

lemma unheld_narrows: "unheld s p \<Longrightarrow> narrows s s' \<Longrightarrow> unheld s' p"
  unfolding unheld_def narrows_def holds_def by metis

lemma unheld_onData_loop:
  "unheld s p \<Longrightarrow> promises (snd (onData_loop parse b s)) p = promises s p"
proof (induction parse b s rule: onData_loop.induct)
  case (1 parse buffer s)
  show ?case
  proof (cases "indexOf buffer newline")
    case None
    then show ?thesis by (subst onData_loop.simps) simp
  next
    case (Some i)
    let ?s' = "if trim (take i buffer) \<noteq> []
               then (case parse (take i buffer) of
                       Some response \<Rightarrow> this_onResponse response s | None \<Rightarrow> s)
               else s"
    have e: "unheld ?s' p \<and> promises ?s' p = promises s p"
      using "1.prems" by (simp add: this_onResponse_def unheld_dispatch split: option.splits)
    from "1.IH" [OF Some refl refl] e show ?thesis
      by (subst onData_loop.simps) (simp add: Some Let_def)
  qed
qed

lemma orphan_step:
  assumes o: "orphan s p t" and n: "narrows s s'" and c: "timers_only_cleared s s'"
      and m: "nextPromise s \<le> nextPromise s'"
  shows "orphan s' p t"
proof -
  from o have u: "unheld s p" and l: "p < nextPromise s"
    and ti: "\<And>u i tmo. timers s u = Some (i, p, tmo) \<Longrightarrow> u = t"
    by (auto simp: orphan_def)
  have "u = t" if "timers s' u = Some (i, p, tmo)" for u i tmo
  proof -
    from c that have "timers s u = Some (i, p, tmo)"
      unfolding timers_only_cleared_def by (metis option.distinct(1))
    then show ?thesis by (rule ti)
  qed
  with unheld_narrows [OF u n] l m show ?thesis by (auto simp: orphan_def)
qed

lemma orphan_send:
  assumes o: "orphan s p t"
  shows "orphan (snd (send req tmo s)) p t \<and> promises (snd (send req tmo s)) p = promises s p"
proof -
  from o have l: "p < nextPromise s" by (simp add: orphan_def)
  then have ne: "p \<noteq> nextPromise s" by simp
  show ?thesis
    using o ne
    by (auto simp: send_def Let_def orphan_def unheld_def settle_def clearTimeout_def
          dest!: in_update in_delete split: option.splits if_splits)
qed

lemma quiet_exec:
  assumes o: "orphan s p t" and x: "x \<noteq> TimerFires t"
  shows "orphan (exec parse x s) p t \<and> promises (exec parse x s) p = promises s p"
proof (cases "\<exists>req tmo. x = Send req tmo")
  case True
  then show ?thesis using orphan_send [OF o] by auto
next
  case False
  then have n: "\<And>req tmo. x \<noteq> Send req tmo" by simp
  have m: "nextPromise s \<le> nextPromise (exec parse x s)"
    using old_exec [of s parse x] by simp
  note a = orphan_step [OF o narrows_exec [OF n] cleared_exec [OF n] m]
  from o have u: "unheld s p"
    and ti: "\<And>u i tmo. timers s u = Some (i, p, tmo) \<Longrightarrow> u = t"
    by (auto simp: orphan_def)
  have "promises (exec parse x s) p = promises s p"
  proof (cases x)
    case (Send req tmo)
    from n [of req tmo] Send show ?thesis by simp
  next
    case (TimerFires u)
    with x have ut: "u \<noteq> t" by simp
    show ?thesis
    proof (cases "timers s u")
      case None
      with TimerFires show ?thesis by (simp add: timerFires_def)
    next
      case (Some y)
      obtain i q tmo where y: "y = (i, q, tmo)" by (cases y)
      from ti [of u i tmo] Some y ut have "q \<noteq> p" by auto
      with TimerFires Some y show ?thesis by (simp add: timerFires_def settle_def)
    qed
  next
    case (SocketData sock d)
    then show ?thesis
      using unheld_onData_loop [OF u, of parse "buffers s sock @ d"]
      by (simp add: socket_data_def onData_def Let_def)
  next
    case Close
    then show ?thesis by (simp add: close_call_def unheld_close [OF u])
  next
    case SocketClose
    then show ?thesis by (simp add: socket_close_def unheld_onClose [OF u])
  qed simp_all
  with a show ?thesis by simp
qed

lemma quiet_run:
  "orphan s p t \<Longrightarrow> TimerFires t \<notin> set xs \<Longrightarrow> promises (run parse xs s) p = promises s p"
proof (induction xs arbitrary: s)
  case Nil
  show ?case by simp
next
  case (Cons x xs)
  from Cons.prems have x: "x \<noteq> TimerFires t" and xs: "TimerFires t \<notin> set xs" by auto
  from quiet_exec [OF Cons.prems(1) x, of parse]
  have "orphan (exec parse x s) p t" "promises (exec parse x s) p = promises s p" by simp_all
  with Cons.IH [OF this(1) xs] show ?case by simp
qed

section \<open>Batch exchanges\<close>

text \<open>
  Claim C3. Let \<^verbatim>\<open>send\<close> be called in a connected state, with a request that
  \<^verbatim>\<open>JSON.stringify\<close> accepts and a write that succeeds (the send does not fail to
  write), with an id that no running generator has taken, and let the messages \<open>ms\<close>
  be dispatched afterwards, among them messages for other ids in any interleaving. If
  the messages of \<open>ms\<close> for the id of the request are the non-terminal \<open>items\<close>, then
  the terminal \<open>final\<close>, then possibly \<open>stale\<close> ones, the promise that \<^verbatim>\<open>send\<close> returned
  is resolved with \<open>items\<close> followed by \<open>final\<close>: every message for the id up to the
  first terminal one, in arrival order, and that terminal one last. With no item
  before it, a matching \<^verbatim>\<open>ok\<close> message alone is the whole list. Neither the timer nor
  \<^verbatim>\<open>close\<close> occurs among the dispatches.
\<close>

theorem send_resolves_in_order:
  assumes al: "allocated s"
      and ok: "socket s = Some k" "state s = connected" "writeThrows s k = None"
              "stringifyThrows s req = None"
      and no: "\<not> overrides (onResponse s) (id' req)"
      and f: "filter (\<lambda>m. response_id m = id' req) ms = items @ [final] @ stale"
      and i: "\<forall>m\<in>set items. \<not> isTerminal m" and l: "isTerminal final"
  shows "fst (send req timeout_opt s) = Inr (nextPromise s)
       \<and> promises (snd (send req timeout_opt s)) (nextPromise s) = Pending
       \<and> promises (fold this_onResponse ms (snd (send req timeout_opt s))) (nextPromise s)
           = Resolved (items @ [final])"
proof -
  let ?s1 = "snd (send req timeout_opt s)"
  note t = send_tracked [OF ok al no, of timeout_opt]
  from f have "filter (\<lambda>m. response_id m = id' req) ms = (items @ [final]) @ stale" by simp
  from filter_append_split [OF this] obtain us vs where ms: "ms = us @ vs"
    and us: "filter (\<lambda>m. response_id m = id' req) us = items @ [final]" by blast
  from tracked_fold_terminal [OF t us i l]
  have "promises (fold this_onResponse us ?s1) (nextPromise s) = Resolved (items @ [final])"
    by simp
  then have "promises (fold this_onResponse ms ?s1) (nextPromise s) = Resolved (items @ [final])"
    by (simp add: ms fold_settled)
  moreover have "fst (send req timeout_opt s) = Inr (nextPromise s)"
    by (simp add: send_ok [OF ok])
  moreover have "promises ?s1 (nextPromise s) = Pending"
    using t by (simp add: tracked_def)
  ultimately show ?thesis by simp
qed

theorem send_resolves_in_order_witness:
  "promises
     (fold this_onResponse
        [ItemResponse ''1'' ''a'', EventResponse ''9'' None, ItemResponse ''1'' ''b'',
         DoneResponse ''1'']
        (snd (send \<lparr> id' = ''1'', call = ''file:readdir'', args = [''/''] \<rparr> None
                (run (\<lambda>l. None)
                   [Connect \<lparr> opt_socketPath = None, opt_timeout = None \<rparr>, SocketOpen 0 7]
                   newTransport)))) 0
     = Resolved [ItemResponse ''1'' ''a'', ItemResponse ''1'' ''b'', DoneResponse ''1'']
   \<and> promises
     (fold this_onResponse [OkResponse ''1'' (Some ''{}'')]
        (snd (send \<lparr> id' = ''1'', call = ''ping'', args = [] \<rparr> None
                (run (\<lambda>l. None)
                   [Connect \<lparr> opt_socketPath = None, opt_timeout = None \<rparr>, SocketOpen 0 7]
                   newTransport)))) 0
     = Resolved [OkResponse ''1'' (Some ''{}'')]"
proof -
  let ?s = "run (\<lambda>l. None)
              [Connect \<lparr> opt_socketPath = None, opt_timeout = None \<rparr>, SocketOpen 0 7]
              newTransport"
  have al: "allocated ?s" by (rule allocated_reachable)
  have ok: "socket ?s = Some 7" "state ?s = connected" "writeThrows ?s 7 = None"
    "stringifyThrows ?s r = None" for r
    by (simp_all add: exec_defs)
  have np: "nextPromise newTransport = 0" by (simp add: newTransport_def)
  have no: "\<not> overrides (onResponse ?s) (id' \<lparr> id' = ''1'', call = c, args = a \<rparr>)" for c a
    by (simp add: exec_defs)
  have f1: "filter (\<lambda>m. response_id m = id' \<lparr> id' = ''1'', call = ''file:readdir'', args = [''/''] \<rparr>)
              [ItemResponse ''1'' ''a'', EventResponse ''9'' None, ItemResponse ''1'' ''b'',
               DoneResponse ''1'']
            = [ItemResponse ''1'' ''a'', ItemResponse ''1'' ''b''] @ [DoneResponse ''1''] @ []"
    by simp
  have i1: "\<forall>m\<in>set [ItemResponse ''1'' ''a'', ItemResponse ''1'' ''b'']. \<not> isTerminal m"
    by simp
  have f2: "filter (\<lambda>m. response_id m = id' \<lparr> id' = ''1'', call = ''ping'', args = [] \<rparr>)
              [OkResponse ''1'' (Some ''{}'')]
            = [] @ [OkResponse ''1'' (Some ''{}'')] @ []"
    by simp
  have i2: "\<forall>m\<in>set []. \<not> isTerminal m" by simp
  from send_resolves_in_order [OF al ok no f1 i1, of None]
       send_resolves_in_order [OF al ok no f2 i2, of None]
  show ?thesis by (simp add: np)
qed

section \<open>Error responses\<close>






section \<open>Closing\<close>

lemma rejectAll_step:
  "rejectAll ((i, w) # es) s
     = rejectAll es
         ((rejectWaiter w RESET (case timer w of Some t \<Rightarrow> clearTimeout t s | None \<Rightarrow> s))
            \<lparr> pending := AList.delete i (pending s) \<rparr>)"
  by (simp add: Let_def RESET_def split: option.splits)

lemma rejectAll_keys:
  "fst ` set (pending (rejectAll es s)) \<subseteq> fst ` set (pending s) - fst ` set es"
proof (induction es arbitrary: s)
  case Nil
  then show ?case by simp
next
  case (Cons e es)
  obtain i w where e: "e = (i, w)" by (cases e)
  let ?s' = "(rejectWaiter w RESET (case timer w of Some t \<Rightarrow> clearTimeout t s | None \<Rightarrow> s))
               \<lparr> pending := AList.delete i (pending s) \<rparr>"
  define A where "A = fst ` set (pending (rejectAll es ?s'))"
  define B where "B = fst ` set (AList.delete i (pending s))"
  have a: "A \<subseteq> B - fst ` set es"
    using Cons.IH [of ?s'] by (simp add: A_def B_def)
  have b: "B \<subseteq> fst ` set (pending s) - {i}"
    using AList.delete_notin_dom [of i "pending s"] AList.dom_delete_subset [of i "pending s"]
    unfolding B_def by blast
  have "A \<subseteq> fst ` set (pending s) - insert i (fst ` set es)"
    using a b by blast
  then show ?case unfolding e rejectAll_step A_def by simp
qed

lemma rejectAll_empties: "pending (rejectAll (pending s) s) = []"
  using rejectAll_keys [of "pending s" s] by simp

lemma rejectAll_timers_None: "timers s t = None \<Longrightarrow> timers (rejectAll es s) t = None"
proof (induction es arbitrary: s)
  case Nil
  then show ?case by simp
next
  case (Cons e es)
  obtain i w where e: "e = (i, w)" by (cases e)
  show ?case unfolding e rejectAll_step
    by (rule Cons.IH) (use Cons.prems in \<open>simp add: clearTimeout_def split: option.splits\<close>)
qed

lemma rejectAll_clears:
  "(i, w) \<in> set es \<Longrightarrow> timer w = Some t \<Longrightarrow> timers (rejectAll es s) t = None"
proof (induction es arbitrary: s)
  case Nil
  then show ?case by simp
next
  case (Cons e es)
  obtain j v where e: "e = (j, v)" by (cases e)
  show ?case
  proof (cases "(i, w) = (j, v)")
    case True
    show ?thesis unfolding e rejectAll_step
      by (rule rejectAll_timers_None) (use True Cons.prems in \<open>simp add: clearTimeout_def\<close>)
  next
    case False
    with Cons.prems e have "(i, w) \<in> set es" by auto
    from Cons.IH [OF this Cons.prems(2)] show ?thesis unfolding e rejectAll_step .
  qed
qed

lemma rejectAll_rejects:
  "(i, w) \<in> set es \<Longrightarrow> reject w = RejectPromise p \<Longrightarrow> promises s p = Pending \<Longrightarrow>
     promises (rejectAll es s) p = Rejected RESET"
proof (induction es arbitrary: s)
  case Nil
  then show ?case by simp
next
  case (Cons e es)
  obtain j v where e: "e = (j, v)" by (cases e)
  let ?s' = "(rejectWaiter v RESET (case timer v of Some t \<Rightarrow> clearTimeout t s | None \<Rightarrow> s))
               \<lparr> pending := AList.delete j (pending s) \<rparr>"
  show ?case
  proof (cases "reject v = RejectPromise p")
    case True
    with Cons.prems(3) have "promises ?s' p = Rejected RESET"
      by (simp add: rejectWaiter_def settle_def split: option.splits)
    then show ?thesis unfolding e rejectAll_step by (simp add: rejectAll_settled)
  next
    case False
    with Cons.prems e have in_es: "(i, w) \<in> set es" by auto
    from False Cons.prems(3) have "promises ?s' p = Pending"
      by (auto simp: rejectWaiter_def settle_def split: option.splits RejectFn.splits)
    from Cons.IH [OF in_es Cons.prems(2) this] show ?thesis unfolding e rejectAll_step .
  qed
qed

lemma errorHandler_streams:
  "streams (errorHandler k e s) j
     = (if j = k
        then (if resolver (streams s k)
              then (streams s k)\<lparr> error := Some e, gen := ResolverCalled IterDone,
                                    resolver := False \<rparr>
              else (streams s k)\<lparr> error := Some e \<rparr>)
        else streams s j)"
  by (simp add: errorHandler_def updStream_def Let_def)

lemma errorHandler_microtasks:
  "microtasks (errorHandler k e s)
     = (if resolver (streams s k) then microtasks s @ [k] else microtasks s)"
  by (simp add: errorHandler_def updStream_def Let_def)

lemma rejectWaiter_streams:
  "streams (rejectWaiter w e s) j
     = (if reject w = StreamErrorHandler j
        then (if resolver (streams s j)
              then (streams s j)\<lparr> error := Some e, gen := ResolverCalled IterDone,
                                    resolver := False \<rparr>
              else (streams s j)\<lparr> error := Some e \<rparr>)
        else streams s j)"
  by (auto simp: rejectWaiter_def errorHandler_streams split: RejectFn.splits)

lemma rejectWaiter_microtasks:
  "set (microtasks s) \<subseteq> set (microtasks (rejectWaiter w e s))"
  by (auto simp: rejectWaiter_def errorHandler_microtasks split: RejectFn.splits)

lemma rejectWaiter_queued:
  "reject w = StreamErrorHandler k \<Longrightarrow> resolver (streams s k) \<Longrightarrow>
     k \<in> set (microtasks (rejectWaiter w e s))"
  by (simp add: rejectWaiter_def errorHandler_microtasks)

lemma rejectAll_delivered:
  "delivered (streams (rejectAll es s) k) = delivered (streams s k)"
proof (induction es arbitrary: s)
  case Nil
  then show ?case by simp
next
  case (Cons e es)
  obtain j v where e: "e = (j, v)" by (cases e)
  show ?case unfolding e rejectAll_step
    by (simp add: Cons.IH rejectWaiter_streams split: option.splits)
qed

lemma rejectAll_told: "told s k \<Longrightarrow> told (rejectAll es s) k"
proof (induction es arbitrary: s)
  case Nil
  then show ?case by simp
next
  case (Cons e es)
  obtain j v where e: "e = (j, v)" by (cases e)
  show ?case unfolding e rejectAll_step
    by (rule Cons.IH)
       (use Cons.prems in \<open>simp add: told_def rejectWaiter_streams split: option.splits\<close>)
qed

lemma rejectAll_woken: "woken s k \<Longrightarrow> woken (rejectAll es s) k"
proof (induction es arbitrary: s)
  case Nil
  then show ?case by simp
next
  case (Cons e es)
  obtain j v where e: "e = (j, v)" by (cases e)
  let ?s0 = "case timer v of Some t \<Rightarrow> clearTimeout t s | None \<Rightarrow> s"
  have s0: "streams ?s0 = streams s" "microtasks ?s0 = microtasks s"
    by (simp_all split: option.splits)
  have "woken ((rejectWaiter v RESET ?s0)\<lparr> pending := AList.delete j (pending s) \<rparr>) k"
    using Cons.prems rejectWaiter_microtasks [of ?s0 v RESET]
    by (auto simp: woken_def rejectWaiter_streams s0)
  then show ?case unfolding e rejectAll_step by (rule Cons.IH)
qed

lemma rejectAll_tells:
  "(i, w) \<in> set es \<Longrightarrow> reject w = StreamErrorHandler k \<Longrightarrow> told (rejectAll es s) k"
proof (induction es arbitrary: s)
  case Nil
  then show ?case by simp
next
  case (Cons e es)
  obtain j v where e: "e = (j, v)" by (cases e)
  show ?case
  proof (cases "reject v = StreamErrorHandler k")
    case True
    show ?thesis unfolding e rejectAll_step
      by (rule rejectAll_told)
         (use True in \<open>simp add: told_def rejectWaiter_streams split: option.splits\<close>)
  next
    case False
    with Cons.prems e have "(i, w) \<in> set es" by auto
    from Cons.IH [OF this Cons.prems(2)] show ?thesis unfolding e rejectAll_step .
  qed
qed

lemma rejectAll_wakes:
  "(i, w) \<in> set es \<Longrightarrow> reject w = StreamErrorHandler k \<Longrightarrow> resolver (streams s k) \<Longrightarrow>
     woken (rejectAll es s) k"
proof (induction es arbitrary: s)
  case Nil
  then show ?case by simp
next
  case (Cons e es)
  obtain j v where e: "e = (j, v)" by (cases e)
  let ?s0 = "case timer v of Some t \<Rightarrow> clearTimeout t s | None \<Rightarrow> s"
  have s0: "streams ?s0 = streams s" "microtasks ?s0 = microtasks s"
    by (simp_all split: option.splits)
  show ?case
  proof (cases "reject v = StreamErrorHandler k")
    case True
    have "woken ((rejectWaiter v RESET ?s0)\<lparr> pending := AList.delete j (pending s) \<rparr>) k"
      using True Cons.prems(3) rejectWaiter_queued [of v k ?s0 RESET]
      by (simp add: woken_def rejectWaiter_streams s0)
    then show ?thesis unfolding e rejectAll_step by (rule rejectAll_woken)
  next
    case False
    with Cons.prems e have in_es: "(i, w) \<in> set es" by auto
    have "resolver (streams ((rejectWaiter v RESET ?s0)
             \<lparr> pending := AList.delete j (pending s) \<rparr>) k)"
      using False Cons.prems(3) by (simp add: rejectWaiter_streams s0)
    from Cons.IH [OF in_es Cons.prems(2) this] show ?thesis unfolding e rejectAll_step .
  qed
qed

lemma resume_other: "j \<noteq> k \<Longrightarrow> streams (resume j s) k = streams s k"
  by (simp add: resume_def afterLoop_def finish_def deliver_def updStream_def
      split: GenState.splits IterResult.splits option.splits)

lemma resume_completed: "gen (streams s k) = Completed \<Longrightarrow> resume k s = s"
  by (simp add: resume_def)

lemma resume_throws:
  "gen (streams s k) = ResolverCalled IterDone \<Longrightarrow> error (streams s k) = Some e \<Longrightarrow>
     streams (resume k s) k
       = (streams s k)\<lparr> gen := Completed, delivered := delivered (streams s k) @ [Thrown e] \<rparr>"
  by (simp add: resume_def afterLoop_def finish_def deliver_def updStream_def finally'_def)

lemma runAll_completed:
  "gen (streams s k) = Completed \<Longrightarrow> streams (runAll ks s) k = streams s k"
proof (induction ks arbitrary: s)
  case Nil
  then show ?case by simp
next
  case (Cons j ks)
  show ?case
  proof (cases "j = k")
    case True
    with Cons show ?thesis by (simp add: resume_completed)
  next
    case False
    with Cons.prems have "gen (streams (resume j s) k) = Completed" by (simp add: resume_other)
    from Cons.IH [OF this] False show ?thesis by (simp add: resume_other)
  qed
qed

lemma runAll_throws:
  "k \<in> set ks \<Longrightarrow> gen (streams s k) = ResolverCalled IterDone \<Longrightarrow>
   error (streams s k) = Some e \<Longrightarrow>
     streams (runAll ks s) k
       = (streams s k)\<lparr> gen := Completed, delivered := delivered (streams s k) @ [Thrown e] \<rparr>"
proof (induction ks arbitrary: s)
  case Nil
  then show ?case by simp
next
  case (Cons j ks)
  show ?case
  proof (cases "j = k")
    case True
    from resume_throws [OF Cons.prems(2,3)]
    have r: "streams (resume k s) k
       = (streams s k)\<lparr> gen := Completed, delivered := delivered (streams s k) @ [Thrown e] \<rparr>" .
    then have "gen (streams (resume k s) k) = Completed" by simp
    from runAll_completed [OF this] r True show ?thesis by simp
  next
    case False
    with Cons.prems have a: "k \<in> set ks" by simp
    from False Cons.prems have b: "gen (streams (resume j s) k) = ResolverCalled IterDone"
      and c: "error (streams (resume j s) k) = Some e"
      by (simp_all add: resume_other)
    from Cons.IH [OF a b c] False show ?thesis by (simp add: resume_other)
  qed
qed

lemma close_call_wakes:
  assumes "(i, w) \<in> set (pending s)" "reject w = StreamErrorHandler k" "resolver (streams s k)"
  shows "streams (close_call s) k
           = (streams (close s) k)
               \<lparr> gen := Completed, delivered := delivered (streams s k) @ [Thrown RESET] \<rparr>"
proof -
  let ?s2 = "(case socket s of
                Some k \<Rightarrow> s\<lparr> ended := ended s @ [k], socket := None \<rparr>
              | None \<Rightarrow> s)\<lparr> state := disconnected \<rparr>"
  have p: "pending ?s2 = pending s" and st: "streams ?s2 = streams s"
    by (simp_all split: option.splits)
  have c: "close s = rejectAll (pending s) ?s2"
    by (simp add: close_def Let_def split: option.splits)
  from assms have "woken (rejectAll (pending s) ?s2) k"
    by (intro rejectAll_wakes [where i = i and w = w]) (simp_all add: st)
  then have w: "woken (close s) k" by (simp add: c)
  have d: "delivered (streams (close s) k) = delivered (streams s k)"
    by (simp add: c rejectAll_delivered st)
  from w have "streams (runAll (microtasks (close s)) ((close s)\<lparr> microtasks := [] \<rparr>)) k
      = (streams ((close s)\<lparr> microtasks := [] \<rparr>) k)
          \<lparr> gen := Completed,
            delivered := delivered (streams ((close s)\<lparr> microtasks := [] \<rparr>) k) @ [Thrown RESET] \<rparr>"
    by (intro runAll_throws) (simp_all add: woken_def)
  then show ?thesis by (simp add: close_call_def runMicrotasks_def d)
qed

lemma close_clean:
  "state s = disconnected \<Longrightarrow> socket s = None \<Longrightarrow> pending s = [] \<Longrightarrow> close s = s"
  by (simp add: close_def)

lemma close_unfold:
  "close s = rejectAll (pending s)
     ((case socket s of
         Some k \<Rightarrow> s\<lparr> ended := ended s @ [k], socket := None \<rparr>
       | None \<Rightarrow> s)\<lparr> state := disconnected \<rparr>)"
  by (simp add: close_def Let_def split: option.splits)

lemma close_fields:
  "state (close s) = disconnected" "socket (close s) = None" "pending (close s) = []"
  "ended (close s) = ended s @ (case socket s of Some k \<Rightarrow> [k] | None \<Rightarrow> [])"
proof -
  let ?s2 = "(case socket s of
                Some k \<Rightarrow> s\<lparr> ended := ended s @ [k], socket := None \<rparr>
              | None \<Rightarrow> s)\<lparr> state := disconnected \<rparr>"
  have p: "pending ?s2 = pending s" by (simp split: option.splits)
  show "state (close s) = disconnected" by (simp add: close_unfold)
  show "socket (close s) = None" by (simp add: close_unfold split: option.splits)
  show "pending (close s) = []"
    using rejectAll_empties [of ?s2] by (simp add: close_unfold p)
  show "ended (close s) = ended s @ (case socket s of Some k \<Rightarrow> [k] | None \<Rightarrow> [])"
    by (simp add: close_unfold split: option.splits)
qed

lemma close_idem: "close (close s) = close s"
  by (rule close_clean) (simp_all add: close_fields)

lemma rejectAll_ended:
  "(rejectAll es s)\<lparr> ended := x \<rparr> = rejectAll es (s\<lparr> ended := x \<rparr>)"
proof (induction es arbitrary: s)
  case Nil
  then show ?case by simp
next
  case (Cons e es)
  obtain i w where e: "e = (i, w)" by (cases e)
  let ?step = "\<lambda>s. (rejectWaiter w RESET
                        (case timer w of Some t \<Rightarrow> clearTimeout t s | None \<Rightarrow> s))
                     \<lparr> pending := AList.delete i (pending s) \<rparr>"
  have step: "(?step s)\<lparr> ended := x \<rparr> = ?step (s\<lparr> ended := x \<rparr>)"
    by (simp add: rejectWaiter_def settle_def errorHandler_def updStream_def
          clearTimeout_def Let_def split: option.splits RejectFn.splits)
  have "(rejectAll (e # es) s)\<lparr> ended := x \<rparr> = (rejectAll es (?step s))\<lparr> ended := x \<rparr>"
    unfolding e rejectAll_step ..
  also have "\<dots> = rejectAll es ((?step s)\<lparr> ended := x \<rparr>)" by (rule Cons.IH)
  also have "\<dots> = rejectAll es (?step (s\<lparr> ended := x \<rparr>))" by (simp only: step)
  also have "\<dots> = rejectAll (e # es) (s\<lparr> ended := x \<rparr>)"
    unfolding e rejectAll_step ..
  finally show ?case .
qed

lemma onClose_close: "onClose s = (close s)\<lparr> ended := ended s \<rparr>"
proof (cases "socket s")
  case None
  then have "s\<lparr> socket := None \<rparr> = s" by (cases s) simp
  then have eq: "s\<lparr> socket := None, state := disconnected \<rparr> = s\<lparr> state := disconnected \<rparr>"
    by simp
  have "onClose s = rejectAll (pending s) (s\<lparr> state := disconnected \<rparr>)"
    unfolding onClose_def Let_def eq by simp
  moreover have "(close s)\<lparr> ended := ended s \<rparr>
                   = rejectAll (pending s) (s\<lparr> state := disconnected \<rparr>)"
    using None by (simp add: close_unfold rejectAll_ended)
  ultimately show ?thesis by simp
next
  case (Some k)
  then show ?thesis
    by (simp add: close_unfold onClose_def Let_def rejectAll_ended)
qed

lemma pending_runAll_empty: "pending s = [] \<Longrightarrow> pending (runAll ks s) = []"
proof (induction ks arbitrary: s)
  case Nil
  then show ?case by simp
next
  case (Cons k ks)
  have "pending (resume k s) = []"
    using Cons.prems
    by (simp add: resume_def afterLoop_def finish_def finally'_def
          split: GenState.splits IterResult.splits option.splits)
  from Cons.IH [OF this] show ?case by simp
qed

lemma close_call_idem: "close_call (close_call s) = close_call s"
proof -
  let ?c = "close_call s"
  have m: "microtasks ?c = []"
    by (simp add: close_call_def runMicrotasks_def)
  have "state ?c = disconnected" "socket ?c = None" "pending ?c = []"
    by (simp_all add: close_call_def runMicrotasks_def close_fields pending_runAll_empty)
  then have "close ?c = ?c" by (rule close_clean)
  then show ?thesis
    using m by (simp add: close_call_def [of ?c] runMicrotasks_def)
qed

lemma next_after_error:
  "gen (streams s k) = SuspendedYield r \<Longrightarrow> error (streams s k) = Some e \<Longrightarrow>
     streams (generator_next k s) k
       = (streams s k)\<lparr> gen := Completed, delivered := delivered (streams s k) @ [Thrown e] \<rparr>"
  by (simp add: generator_next_def loop_def afterLoop_def finish_def deliver_def updStream_def
      finally'_def)


lemmas stream_defs = stream_def generator_next_def start_def loop_def updStream_def deliver_def


text \<open>
  Claim C6, as amended. \<^verbatim>\<open>close\<close> throws nothing and can be called in every state; a
  second \<^verbatim>\<open>close\<close> changes nothing, with or without the microtasks in between. After
  \<^verbatim>\<open>close\<close> the state is \<open>disconnected\<close>, no socket is stored, the stored socket if any
  has been ended, and the table is empty. In a state that is \<open>disconnected\<close> with no
  socket stored and an empty table, \<^verbatim>\<open>close\<close> changes nothing. For every waiter in the
  table before the call: its timer is cleared; if it is a waiter of \<^verbatim>\<open>send\<close> whose
  promise is pending, the promise is rejected with \<^verbatim>\<open>ECONNRESET\<close>; if it is the waiter of
  a generator of \<^verbatim>\<open>stream\<close>, the generator's \<^verbatim>\<open>error\<close> is that error, and when a pull was
  waiting, that pull throws the error and the generator is finished once the
  microtasks have run. A generator suspended at a \<^verbatim>\<open>yield\<close> with its \<^verbatim>\<open>error\<close> set throws
  it at the next pull and is finished. A promise that was settled is left as it is.
  \<^verbatim>\<open>onClose\<close> does the same except ending the socket.
\<close>

theorem close_flushes_waiters:
  "close (close s) = close s
   \<and> close_call (close_call s) = close_call s
   \<and> state (close s) = disconnected \<and> socket (close s) = None \<and> pending (close s) = []
   \<and> ended (close s) = ended s @ (case socket s of Some k \<Rightarrow> [k] | None \<Rightarrow> [])
   \<and> (state s = disconnected \<and> socket s = None \<and> pending s = [] \<longrightarrow> close s = s)
   \<and> (\<forall>(i, w)\<in>set (pending s).
         (\<forall>p. reject w = RejectPromise p \<and> promises s p = Pending \<longrightarrow>
               promises (close s) p
                 = Rejected (ConnectionError ''ECONNRESET'' ''Connection closed''))
       \<and> (\<forall>t. timer w = Some t \<longrightarrow> timers (close s) t = None)
       \<and> (\<forall>k. reject w = StreamErrorHandler k \<longrightarrow>
               error (streams (close s) k)
                 = Some (ConnectionError ''ECONNRESET'' ''Connection closed'')
             \<and> (resolver (streams s k) \<longrightarrow>
                   gen (streams (close_call s) k) = Completed
                 \<and> delivered (streams (close_call s) k)
                     = delivered (streams s k)
                       @ [Thrown (ConnectionError ''ECONNRESET'' ''Connection closed'')])))
   \<and> (\<forall>p. promises s p \<noteq> Pending \<longrightarrow> promises (close s) p = promises s p)
   \<and> (\<forall>k r e. gen (streams s k) = SuspendedYield r \<and> error (streams s k) = Some e \<longrightarrow>
         gen (streams (generator_next k s) k) = Completed
       \<and> delivered (streams (generator_next k s) k) = delivered (streams s k) @ [Thrown e])
   \<and> onClose s = (close s)\<lparr> ended := ended s \<rparr>"
proof -
  let ?s2 = "(case socket s of
                Some k \<Rightarrow> s\<lparr> ended := ended s @ [k], socket := None \<rparr>
              | None \<Rightarrow> s)\<lparr> state := disconnected \<rparr>"
  have f: "promises ?s2 = promises s" "streams ?s2 = streams s" "timers ?s2 = timers s"
    by (simp_all split: option.splits)
  have waiters: "(\<forall>p. reject w = RejectPromise p \<and> promises s p = Pending \<longrightarrow>
               promises (close s) p = Rejected RESET)
       \<and> (\<forall>t. timer w = Some t \<longrightarrow> timers (close s) t = None)
       \<and> (\<forall>k. reject w = StreamErrorHandler k \<longrightarrow>
               error (streams (close s) k) = Some RESET
             \<and> (resolver (streams s k) \<longrightarrow>
                   gen (streams (close_call s) k) = Completed
                 \<and> delivered (streams (close_call s) k)
                     = delivered (streams s k) @ [Thrown RESET]))"
    if m: "(i, w) \<in> set (pending s)" for i w
  proof (intro conjI allI impI)
    fix p assume "reject w = RejectPromise p \<and> promises s p = Pending"
    then show "promises (close s) p = Rejected RESET"
      using rejectAll_rejects [OF m, of p ?s2] by (simp add: close_unfold f)
  next
    fix t assume "timer w = Some t"
    then show "timers (close s) t = None"
      using rejectAll_clears [OF m, of t ?s2] by (simp add: close_unfold)
  next
    fix k assume "reject w = StreamErrorHandler k"
    then show "error (streams (close s) k) = Some RESET"
      using rejectAll_tells [OF m, of k ?s2] by (simp add: close_unfold told_def)
  next
    fix k assume a: "reject w = StreamErrorHandler k" and b: "resolver (streams s k)"
    from close_call_wakes [OF m a b]
    show "gen (streams (close_call s) k) = Completed" by simp
  next
    fix k assume a: "reject w = StreamErrorHandler k" and b: "resolver (streams s k)"
    from close_call_wakes [OF m a b]
    show "delivered (streams (close_call s) k) = delivered (streams s k) @ [Thrown RESET]"
      by simp
  qed
  have settled: "promises (close s) p = promises s p" if "promises s p \<noteq> Pending" for p
    using that rejectAll_settled [of ?s2 p "pending s"] by (simp add: close_unfold f)
  have pulls: "gen (streams (generator_next k s) k) = Completed
       \<and> delivered (streams (generator_next k s) k) = delivered (streams s k) @ [Thrown e]"
    if "gen (streams s k) = SuspendedYield r \<and> error (streams s k) = Some e" for k r e
    using that next_after_error [of s k r e] by simp
  show ?thesis
    using close_idem [of s] close_call_idem [of s] close_fields [of s] close_clean [of s]
      waiters [unfolded RESET_def] settled pulls onClose_close [of s]
    by (intro conjI) (blast | simp)+
qed

theorem close_flushes_waiters_witness:
  "promises
     (close (run (\<lambda>l. None)
        [Connect \<lparr> opt_socketPath = None, opt_timeout = None \<rparr>, SocketOpen 0 7,
         Send \<lparr> id' = ''1'', call = ''ping'', args = [] \<rparr> None,
         Stream \<lparr> id' = ''2'', call = ''file:readdir'', args = [''/''] \<rparr>, Next 0]
        newTransport)) 0
     = Rejected (ConnectionError ''ECONNRESET'' ''Connection closed'')
   \<and> delivered (streams
     (close_call (run (\<lambda>l. None)
        [Connect \<lparr> opt_socketPath = None, opt_timeout = None \<rparr>, SocketOpen 0 7,
         Send \<lparr> id' = ''1'', call = ''ping'', args = [] \<rparr> None,
         Stream \<lparr> id' = ''2'', call = ''file:readdir'', args = [''/''] \<rparr>, Next 0]
        newTransport)) 0)
     = [Thrown (ConnectionError ''ECONNRESET'' ''Connection closed'')]
   \<and> pending
     (close (run (\<lambda>l. None)
        [Connect \<lparr> opt_socketPath = None, opt_timeout = None \<rparr>, SocketOpen 0 7,
         Send \<lparr> id' = ''1'', call = ''ping'', args = [] \<rparr> None,
         Stream \<lparr> id' = ''2'', call = ''file:readdir'', args = [''/''] \<rparr>, Next 0]
        newTransport)) = []
   \<and> close newTransport = newTransport"
proof -
  let ?s = "run (\<lambda>l. None)
        [Connect \<lparr> opt_socketPath = None, opt_timeout = None \<rparr>, SocketOpen 0 7,
         Send \<lparr> id' = ''1'', call = ''ping'', args = [] \<rparr> None,
         Stream \<lparr> id' = ''2'', call = ''file:readdir'', args = [''/''] \<rparr>, Next 0]
        newTransport"
  let ?w1 = "\<lparr> resolve = ResolvePromise 0, reject = RejectPromise 0, responses = [],
               timer = Some 0 \<rparr>"
  let ?w2 = "\<lparr> resolve = ResolveNoop, reject = StreamErrorHandler 0, responses = [],
               timer = None \<rparr>"
  have p: "pending ?s = [(''1'', ?w1), (''2'', ?w2)]"
    by (simp add: exec_defs stream_defs)
  have q: "promises ?s 0 = Pending" by (simp add: exec_defs stream_defs)
  have r: "resolver (streams ?s 0)" "delivered (streams ?s 0) = []"
    by (simp_all add: exec_defs stream_defs)
  note t = close_flushes_waiters [of ?s]
  from t have all: "\<forall>(i, w)\<in>set (pending ?s).
         (\<forall>p. reject w = RejectPromise p \<and> promises ?s p = Pending \<longrightarrow>
               promises (close ?s) p
                 = Rejected (ConnectionError ''ECONNRESET'' ''Connection closed''))
       \<and> (\<forall>t. timer w = Some t \<longrightarrow> timers (close ?s) t = None)
       \<and> (\<forall>k. reject w = StreamErrorHandler k \<longrightarrow>
               error (streams (close ?s) k)
                 = Some (ConnectionError ''ECONNRESET'' ''Connection closed'')
             \<and> (resolver (streams ?s k) \<longrightarrow>
                   gen (streams (close_call ?s) k) = Completed
                 \<and> delivered (streams (close_call ?s) k)
                     = delivered (streams ?s k)
                       @ [Thrown (ConnectionError ''ECONNRESET'' ''Connection closed'')]))"
    by blast
  have m1: "(''1'', ?w1) \<in> set (pending ?s)" and m2: "(''2'', ?w2) \<in> set (pending ?s)"
    by (simp_all only: p list.set insert_iff simp_thms)
  from all m1 q have a: "promises (close ?s) 0
      = Rejected (ConnectionError ''ECONNRESET'' ''Connection closed'')"
    by fastforce
  from all m2 r have b: "delivered (streams (close_call ?s) 0)
      = [Thrown (ConnectionError ''ECONNRESET'' ''Connection closed'')]"
    by fastforce
  from t have c: "pending (close ?s) = []" by blast
  from close_flushes_waiters [of newTransport] have d: "close newTransport = newTransport"
    by (simp add: newTransport_def)
  from a b c d show ?thesis by simp
qed


text \<open>
  Claim C6 as stated makes \<^verbatim>\<open>close\<close> a no-op whenever the state is \<open>disconnected\<close>. After
  a connect that timed out and whose stream opened late, the state is \<open>disconnected\<close>
  and socket \<open>5\<close> is stored; \<^verbatim>\<open>close\<close> then ends that socket and forgets it.
\<close>

theorem close_when_disconnected_counterexample:
  "state (socket_open 0 5 (connectTimerFires 0
      (snd (connect \<lparr> opt_socketPath = Some ''/tmp/none.sock'', opt_timeout = Some 100 \<rparr>
              newTransport)))) = disconnected
   \<and> socket (socket_open 0 5 (connectTimerFires 0
      (snd (connect \<lparr> opt_socketPath = Some ''/tmp/none.sock'', opt_timeout = Some 100 \<rparr>
              newTransport)))) = Some 5
   \<and> socket (close (socket_open 0 5 (connectTimerFires 0
      (snd (connect \<lparr> opt_socketPath = Some ''/tmp/none.sock'', opt_timeout = Some 100 \<rparr>
              newTransport))))) = None
   \<and> ended (close (socket_open 0 5 (connectTimerFires 0
      (snd (connect \<lparr> opt_socketPath = Some ''/tmp/none.sock'', opt_timeout = Some 100 \<rparr>
              newTransport))))) = [5]"
  by (simp add: close_def socket_open_def resolveAttempt_def rejectAttempt_def updAttempt_def
      connectTimerFires_def connect_def newTransport_def Let_def)

section \<open>Streaming exchanges\<close>

lemma onData_eq:
  "onData parse sock data s
     = (fold this_onResponse
          (spec_messages parse (fst (spec_frames (buffers s sock @ data)))) s)
         \<lparr> buffers := (buffers s)(sock := snd (spec_frames (buffers s sock @ data))) \<rparr>"
proof -
  have b: "buffers (fold this_onResponse rs s) = buffers s" for rs
    by (induction rs arbitrary: s) simp_all
  show ?thesis by (simp add: onData_def onData_loop_frames Let_def b)
qed

lemmas run_defs = exec_defs stream_defs socket_data_def onData_eq spec_messages_def
  List.map_filter_simps trim_def isWhiteSpace_def newline_def this_onResponse_def
  handler_def runMicrotasks_def resume_def afterLoop_def finish_def finally'_def


text \<open>
  Claim C2. A generator of \<^verbatim>\<open>stream\<close> for id \<^verbatim>\<open>"1"\<close> is pulled once and waits; the remote
  sends three \<^verbatim>\<open>item\<close> messages and one \<^verbatim>\<open>done\<close> message for that id, which the frames
  \<^verbatim>\<open>a\<close>, \<^verbatim>\<open>b\<close>, \<^verbatim>\<open>c\<close>, \<^verbatim>\<open>d\<close> stand for. When each frame arrives in a chunk of its own and
  the consumer pulls after each, the consumer receives the four messages in order and
  then the end of the sequence. When the four frames arrive in one chunk, \<^verbatim>\<open>handler\<close>
  gives the first message to the waiting pull and queues the other three, setting
  \<^verbatim>\<open>done\<close> on the last; the next pull finds \<^verbatim>\<open>done\<close> set at the head of the \<^verbatim>\<open>while\<close> loop
  and leaves it with the queue unread: the consumer receives the first \<^verbatim>\<open>item\<close> and then
  the end of the sequence. So the code does not yield the four messages regardless of
  the interleaving.
\<close>

theorem stream_drops_queued_messages:
  "delivered (streams
     (run (\<lambda>l. if l = ''a'' then Some (ItemResponse ''1'' ''x'')
                else if l = ''b'' then Some (ItemResponse ''1'' ''y'')
                else if l = ''c'' then Some (ItemResponse ''1'' ''z'')
                else if l = ''d'' then Some (DoneResponse ''1'') else None)
        [Connect \<lparr> opt_socketPath = None, opt_timeout = None \<rparr>, SocketOpen 0 7,
         Stream \<lparr> id' = ''1'', call = ''file:readdir'', args = [''/''] \<rparr>, Next 0,
         SocketData 7 (''a'' @ [newline]), Next 0,
         SocketData 7 (''b'' @ [newline]), Next 0,
         SocketData 7 (''c'' @ [newline]), Next 0,
         SocketData 7 (''d'' @ [newline]), Next 0]
        newTransport) 0)
     = [Yielded (ItemResponse ''1'' ''x''), Yielded (ItemResponse ''1'' ''y''),
        Yielded (ItemResponse ''1'' ''z''), Yielded (DoneResponse ''1''), Returned]
   \<and> delivered (streams
     (run (\<lambda>l. if l = ''a'' then Some (ItemResponse ''1'' ''x'')
                else if l = ''b'' then Some (ItemResponse ''1'' ''y'')
                else if l = ''c'' then Some (ItemResponse ''1'' ''z'')
                else if l = ''d'' then Some (DoneResponse ''1'') else None)
        [Connect \<lparr> opt_socketPath = None, opt_timeout = None \<rparr>, SocketOpen 0 7,
         Stream \<lparr> id' = ''1'', call = ''file:readdir'', args = [''/''] \<rparr>, Next 0,
         SocketData 7 (''a'' @ [newline] @ ''b'' @ [newline] @ ''c'' @ [newline]
                       @ ''d'' @ [newline]),
         Next 0]
        newTransport) 0)
     = [Yielded (ItemResponse ''1'' ''x''), Returned]"
  by (simp add: run_defs)

section \<open>Timeout of a batch exchange\<close>





section \<open>A second \<^verbatim>\<open>send\<close> with an id in use\<close>

lemma in_update_distinct:
  assumes d: "distinct (map fst al)" and x: "(i, w) \<in> set (AList.update k v al)"
  shows "(i, w) = (k, v) \<or> ((i, w) \<in> set al \<and> i \<noteq> k)"
proof -
  from d have "distinct (map fst (AList.update k v al))" by (rule AList.distinct_update)
  with x have "map_of (AList.update k v al) i = Some w" by simp
  then have m: "((map_of al)(k \<mapsto> v)) i = Some w" by (simp add: AList.update_conv')
  show ?thesis
  proof (cases "i = k")
    case True
    with m show ?thesis by simp
  next
    case False
    with m have "map_of al i = Some w" by simp
    then have "(i, w) \<in> set al" by (rule map_of_SomeD)
    with False show ?thesis by simp
  qed
qed

text \<open>
  Claim C10, as amended. Let the id of a request have a waiter \<open>w1\<close> in the table that an
  earlier \<^verbatim>\<open>send\<close> registered: it resolves the promise \<open>p1\<close>, which is still pending, and
  its timer \<open>t1\<close> is armed. Let \<^verbatim>\<open>send\<close> be called with that id, in a connected state,
  with a request that can be serialised and written. The table then maps the id to the
  new waiter, with the new promise \<open>p2\<close> and the new timer \<open>t2\<close>. From then on nothing
  but the timer \<open>t1\<close> settles the earlier promise: no dispatch of any messages does,
  \<^verbatim>\<open>close\<close> and the socket's close callback do not, and no sequence of calls and
  callbacks in which that timer does not fire does. When the timer \<open>t1\<close> fires, it
  rejects the earlier promise with the timeout and deletes the entry under the id,
  which is the later waiter's: the later promise is still pending and its timer
  still armed, and the table has no entry for it.
\<close>

theorem duplicate_id_overwrites:
  assumes al: "allocated s" and ex: "exclusive s"
      and ok: "socket s = Some k" "state s = connected" "writeThrows s k = None"
              "stringifyThrows s req = None"
      and w1: "map_of (pending s) (id' req) = Some w1"
      and r1: "resolve w1 = ResolvePromise p1"
      and t1: "timer w1 = Some t1" "timers s t1 = Some (id' req, p1, tmo1)"
      and pe: "promises s p1 = Pending"
  shows "(let s2 = snd (send req timeout_opt s);
              s3 = timerFires t1 s2;
              p2 = nextPromise s;
              t2 = nextTimer s;
              tmo2 = (case timeout_opt of None \<Rightarrow> 30000 | Some t \<Rightarrow> t)
          in fst (send req timeout_opt s) = Inr p2
           \<and> p2 \<noteq> p1 \<and> t2 \<noteq> t1
           \<and> map_of (pending s2) (id' req)
               = Some \<lparr> resolve = ResolvePromise p2, reject = RejectPromise p2,
                        responses = [], timer = Some t2 \<rparr>
           \<and> promises s2 p1 = Pending
           \<and> (\<forall>ms. promises (fold this_onResponse ms s2) p1 = Pending)
           \<and> promises (close s2) p1 = Pending
           \<and> promises (onClose s2) p1 = Pending
           \<and> (\<forall>parse xs. TimerFires t1 \<notin> set xs \<longrightarrow> promises (run parse xs s2) p1 = Pending)
           \<and> (\<exists>e. promises s3 p1 = Rejected e \<and> isTimeoutError e)
           \<and> (tmo1 < 10 ^ 21 \<longrightarrow>
                promises s3 p1
                  = Rejected (TimeoutError (''Request '' @ id' req @ '' timed out after ''
                                             @ Number_toString tmo1 @ ''ms'')))
           \<and> map_of (pending s3) (id' req) = None
           \<and> promises s3 p2 = Pending
           \<and> timers s3 t2 = Some (id' req, p2, tmo2))"
proof -
  let ?X = "id' req"
  let ?p2 = "nextPromise s"
  let ?t2 = "nextTimer s"
  let ?tmo2 = "case timeout_opt of None \<Rightarrow> 30000 | Some t \<Rightarrow> t"
  let ?w2 = "\<lparr> resolve = ResolvePromise ?p2, reject = RejectPromise ?p2,
               responses = [], timer = Some ?t2 \<rparr>"
  let ?s2 = "snd (send req timeout_opt s)"
  let ?s3 = "timerFires t1 ?s2"
  let ?e = "TimeoutError (''Request '' @ ?X @ '' timed out after '' @ Number_toString tmo1
                          @ ''ms'')"
  note e2 = send_ok [OF ok, of timeout_opt]
  from w1 have in1: "(?X, w1) \<in> set (pending s)" by (rule map_of_SomeD)
  from r1 have h1: "holds w1 p1" by (simp add: holds_def)
  from al in1 r1 have lt: "p1 < ?p2" unfolding allocated_iff by blast
  from al t1(2) have lt': "t1 < ?t2" unfolding allocated_iff by blast
  from ex have d: "distinct (map fst (pending s))" by (simp add: exclusive_def)
  have f2: "fst (send req timeout_opt s) = Inr ?p2" by (simp add: e2)
  have pe2: "pending ?s2 = AList.update ?X ?w2 (pending s)" by (simp add: e2)
  have pr2: "promises ?s2 = (promises s)(?p2 := Pending)" by (simp add: e2)
  have ti2: "timers ?s2 = (timers s)(?t2 := Some (?X, ?p2, ?tmo2))" by (simp add: e2)
  have m2: "map_of (pending ?s2) ?X = Some ?w2" by (simp add: pe2 AList.update_conv')
  have u: "unheld ?s2 p1"
    unfolding unheld_def
  proof (intro allI impI)
    fix i w
    assume "(i, w) \<in> set (pending ?s2)"
    then have "(i, w) = (?X, ?w2) \<or> ((i, w) \<in> set (pending s) \<and> i \<noteq> ?X)"
      unfolding pe2 by (rule in_update_distinct [OF d])
    then show "resolve w \<noteq> ResolvePromise p1 \<and> reject w \<noteq> RejectPromise p1"
    proof
      assume "(i, w) = (?X, ?w2)"
      with lt show ?thesis by auto
    next
      assume a: "(i, w) \<in> set (pending s) \<and> i \<noteq> ?X"
      have "\<not> holds w p1"
      proof
        assume "holds w p1"
        with ex a in1 h1 have "i = ?X" unfolding exclusive_def by blast
        with a show False by simp
      qed
      then show ?thesis by (simp add: holds_def)
    qed
  qed
  have only: "v = t1" if "timers ?s2 v = Some (i, p1, m)" for v i m
  proof (cases "v = ?t2")
    case True
    with that lt show ?thesis by (simp add: ti2)
  next
    case False
    with that have "timers s v = Some (i, p1, m)" by (simp add: ti2)
    with ex t1(2) show ?thesis unfolding exclusive_def by blast
  qed
  have o: "orphan ?s2 p1 t1"
    using u lt only by (auto simp: orphan_def e2)
  have a: "promises ?s2 p1 = Pending" using lt pe by (simp add: pr2)
  have b: "promises (fold this_onResponse ms ?s2) p1 = Pending" for ms
    by (simp add: unheld_fold [OF u] a)
  have c: "promises (close ?s2) p1 = Pending" by (simp add: unheld_close [OF u] a)
  have c': "promises (onClose ?s2) p1 = Pending" by (simp add: unheld_onClose [OF u] a)
  have q: "promises (run parse xs ?s2) p1 = Pending" if "TimerFires t1 \<notin> set xs" for parse xs
    by (simp add: quiet_run [OF o that] a)
  have tt: "timers ?s2 t1 = Some (?X, p1, tmo1)"
    using lt' t1(2) by (simp add: ti2)
  note tf = timerFires_armed [OF tt]
  have g: "map_of (pending ?s3) ?X = None" by (simp add: tf settle_def AList.delete_conv')
  have r: "promises ?s3 p1 = Rejected ?e" by (simp add: tf settle_def a)
  then have r': "\<exists>e. promises ?s3 p1 = Rejected e \<and> isTimeoutError e" by simp
  have f: "promises ?s3 ?p2 = Pending" using lt by (simp add: tf settle_def pr2)
  have h: "timers ?s3 ?t2 = Some (?X, ?p2, ?tmo2)" using lt' by (simp add: tf settle_def ti2)
  from lt lt' have ne: "?p2 \<noteq> p1" "?t2 \<noteq> t1" by simp_all
  show ?thesis
    unfolding Let_def using f2 ne m2 a b c c' q r r' g f h by blast
qed

theorem duplicate_id_overwrites_witness:
  "map_of (pending
     (snd (send \<lparr> id' = ''1'', call = ''b'', args = [] \<rparr> None
        (run (\<lambda>l. if l = ''i'' then Some (ItemResponse ''1'' ''x'') else None)
           [Connect \<lparr> opt_socketPath = None, opt_timeout = None \<rparr>, SocketOpen 0 7,
            Send \<lparr> id' = ''1'', call = ''a'', args = [] \<rparr> (Some 50),
            SocketData 7 (''i'' @ [newline])]
           newTransport)))) ''1''
     = Some \<lparr> resolve = ResolvePromise 1, reject = RejectPromise 1, responses = [],
              timer = Some 1 \<rparr>
   \<and> promises
     (run (\<lambda>l. Some (OkResponse ''1'' None)) [SocketData 7 (''ok'' @ [newline]), Close]
       (snd (send \<lparr> id' = ''1'', call = ''b'', args = [] \<rparr> None
        (run (\<lambda>l. if l = ''i'' then Some (ItemResponse ''1'' ''x'') else None)
           [Connect \<lparr> opt_socketPath = None, opt_timeout = None \<rparr>, SocketOpen 0 7,
            Send \<lparr> id' = ''1'', call = ''a'', args = [] \<rparr> (Some 50),
            SocketData 7 (''i'' @ [newline])]
           newTransport)))) 0
     = Pending
   \<and> promises
     (timerFires 0
       (snd (send \<lparr> id' = ''1'', call = ''b'', args = [] \<rparr> None
        (run (\<lambda>l. if l = ''i'' then Some (ItemResponse ''1'' ''x'') else None)
           [Connect \<lparr> opt_socketPath = None, opt_timeout = None \<rparr>, SocketOpen 0 7,
            Send \<lparr> id' = ''1'', call = ''a'', args = [] \<rparr> (Some 50),
            SocketData 7 (''i'' @ [newline])]
           newTransport)))) 0
     = Rejected (TimeoutError ''Request 1 timed out after 50ms'')
   \<and> map_of (pending
     (timerFires 0
       (snd (send \<lparr> id' = ''1'', call = ''b'', args = [] \<rparr> None
        (run (\<lambda>l. if l = ''i'' then Some (ItemResponse ''1'' ''x'') else None)
           [Connect \<lparr> opt_socketPath = None, opt_timeout = None \<rparr>, SocketOpen 0 7,
            Send \<lparr> id' = ''1'', call = ''a'', args = [] \<rparr> (Some 50),
            SocketData 7 (''i'' @ [newline])]
           newTransport))))) ''1''
     = None
   \<and> promises
     (timerFires 0
       (snd (send \<lparr> id' = ''1'', call = ''b'', args = [] \<rparr> None
        (run (\<lambda>l. if l = ''i'' then Some (ItemResponse ''1'' ''x'') else None)
           [Connect \<lparr> opt_socketPath = None, opt_timeout = None \<rparr>, SocketOpen 0 7,
            Send \<lparr> id' = ''1'', call = ''a'', args = [] \<rparr> (Some 50),
            SocketData 7 (''i'' @ [newline])]
           newTransport)))) 1
     = Pending"
proof -
  let ?parse = "\<lambda>l. if l = ''i'' then Some (ItemResponse ''1'' ''x'') else None"
  let ?s = "run ?parse
              [Connect \<lparr> opt_socketPath = None, opt_timeout = None \<rparr>, SocketOpen 0 7,
               Send \<lparr> id' = ''1'', call = ''a'', args = [] \<rparr> (Some 50),
               SocketData 7 (''i'' @ [newline])]
              newTransport"
  let ?req = "\<lparr> id' = ''1'', call = ''b'', args = [] \<rparr>"
  let ?w1 = "\<lparr> resolve = ResolvePromise 0, reject = RejectPromise 0,
               responses = [ItemResponse ''1'' ''x''], timer = Some 0 \<rparr>"
  let ?s2 = "snd (send ?req None ?s)"
  have al: "allocated ?s" by (rule allocated_reachable)
  have ex: "exclusive ?s" by (rule exclusive_reachable)
  have ok: "socket ?s = Some 7" "state ?s = connected" "writeThrows ?s 7 = None"
      "stringifyThrows ?s ?req = None"
    by (simp_all add: run_defs onResponse_method_def)
  have w1: "map_of (pending ?s) (id' ?req) = Some ?w1"
    by (simp add: run_defs onResponse_method_def)
  have r1: "resolve ?w1 = ResolvePromise 0" by simp
  have t1: "timer ?w1 = Some 0" "timers ?s 0 = Some (id' ?req, 0, 50)"
    by (simp_all add: run_defs onResponse_method_def)
  have pe: "promises ?s 0 = Pending"
    by (simp add: run_defs onResponse_method_def)
  have n: "nextPromise ?s = 1" "nextTimer ?s = 1"
    by (simp_all add: run_defs onResponse_method_def)
  note t = duplicate_id_overwrites [OF al ex ok w1 r1 t1 pe, of None, unfolded Let_def n]
  from t have a: "map_of (pending ?s2) (id' ?req)
      = Some \<lparr> resolve = ResolvePromise 1, reject = RejectPromise 1,
               responses = [], timer = Some 1 \<rparr>" by blast
  from t have "\<forall>parse xs. TimerFires 0 \<notin> set xs \<longrightarrow> promises (run parse xs ?s2) 0 = Pending"
    by blast
  then have "TimerFires 0 \<notin> set [SocketData 7 (''ok'' @ [newline]), Close] \<longrightarrow>
      promises (run (\<lambda>l. Some (OkResponse ''1'' None))
                  [SocketData 7 (''ok'' @ [newline]), Close] ?s2) 0 = Pending"
    by blast
  moreover have "TimerFires 0 \<notin> set [SocketData 7 (''ok'' @ [newline]), Close]" by simp
  ultimately have b: "promises (run (\<lambda>l. Some (OkResponse ''1'' None))
                   [SocketData 7 (''ok'' @ [newline]), Close] ?s2) 0 = Pending"
    by blast
  from t have "(50::nat) < 10 ^ 21 \<longrightarrow> promises (timerFires 0 ?s2) 0
      = Rejected (TimeoutError (''Request '' @ id' ?req @ '' timed out after ''
           @ Number_toString 50 @ ''ms''))" by blast
  then have c: "promises (timerFires 0 ?s2) 0
      = Rejected (TimeoutError ''Request 1 timed out after 50ms'')"
    by (simp add: Number_toString.simps digit_def)
  from t have d: "map_of (pending (timerFires 0 ?s2)) (id' ?req) = None" by blast
  from t have e: "promises (timerFires 0 ?s2) 1 = Pending" by blast
  from a have a': "map_of (pending ?s2) ''1''
      = Some \<lparr> resolve = ResolvePromise 1, reject = RejectPromise 1,
               responses = [], timer = Some 1 \<rparr>" by simp
  from d have d': "map_of (pending (timerFires 0 ?s2)) ''1'' = None" by simp
  show ?thesis
    by (simp only: a' b c d' e)
qed


text \<open>
  Claim C10 as stated lets a \<^verbatim>\<open>close\<close> settle the earlier future. Two calls of \<^verbatim>\<open>send\<close>
  with the id \<^verbatim>\<open>"1"\<close> are in flight when \<^verbatim>\<open>close()\<close> is called. \<^verbatim>\<open>close\<close> walks the table,
  which holds the later waiter only: it rejects the later promise with the reset and
  clears the later timer. The earlier promise is still pending after the \<^verbatim>\<open>close\<close>, and
  its timer still armed.
\<close>

theorem close_skips_overwritten_waiter_counterexample:
  "promises
     (run (\<lambda>l. None)
        [Connect \<lparr> opt_socketPath = None, opt_timeout = None \<rparr>, SocketOpen 0 7,
         Send \<lparr> id' = ''1'', call = ''a'', args = [] \<rparr> (Some 50),
         Send \<lparr> id' = ''1'', call = ''b'', args = [] \<rparr> None,
         Close]
        newTransport) 0
     = Pending
   \<and> promises
     (run (\<lambda>l. None)
        [Connect \<lparr> opt_socketPath = None, opt_timeout = None \<rparr>, SocketOpen 0 7,
         Send \<lparr> id' = ''1'', call = ''a'', args = [] \<rparr> (Some 50),
         Send \<lparr> id' = ''1'', call = ''b'', args = [] \<rparr> None,
         Close]
        newTransport) 1
     = Rejected (ConnectionError ''ECONNRESET'' ''Connection closed'')
   \<and> timers
     (run (\<lambda>l. None)
        [Connect \<lparr> opt_socketPath = None, opt_timeout = None \<rparr>, SocketOpen 0 7,
         Send \<lparr> id' = ''1'', call = ''a'', args = [] \<rparr> (Some 50),
         Send \<lparr> id' = ''1'', call = ''b'', args = [] \<rparr> None,
         Close]
        newTransport) 0
     = Some (''1'', 0, 50)"
  by (simp add: run_defs close_call_def close_def rejectWaiter_def)

end
